(* ===== verification/Prelude.thy ===== *)
theory Prelude
  imports Main "HOL-Library.Sublist" "HOL-Library.AList"
begin

text \<open>
  Shared vocabulary of the development.  A Go \<open>string\<close> (and a \<open>[]byte\<close>) is a byte
  sequence, modelled by \<open>string\<close>, i.e. \<open>char list\<close> with one \<open>char\<close> per byte.  This
  theory holds the functions of Go's \<open>strings\<close> package that the proxy calls
  (\<open>HasPrefix\<close> is the library's \<open>prefix\<close>, \<open>HasSuffix\<close> is \<open>suffix\<close>), the error values,
  and the sequencing of fallible steps, with the lemmas every component uses.
\<close>

named_theorems go_strings "rewrite rules for the strings functions"
named_theorems res_simps "rewrite rules for fallible steps"

section \<open>Byte strings\<close>

type_synonym gostring = string

text \<open>The bytes that Isabelle literals cannot spell.\<close>

definition byte :: "nat \<Rightarrow> char" where
  "byte n = char_of n"

lemma of_char_byte [simp]: "n < 256 \<Longrightarrow> of_char (byte n) = n"
  by (simp add: byte_def)

lemma byte_of_char [simp]: "byte (of_char c) = c"
  by (simp add: byte_def)

lemma char_high_nibble [simp, intro]: "(of_char c :: nat) div 16 < 16"
  using nat_of_char_less_256 [of c] by (simp add: div_less_iff_less_mult)

abbreviation newline :: char where "newline \<equiv> CHR 0x0A"
abbreviation carriage :: char where "carriage \<equiv> CHR 0x0D"
abbreviation dquote :: char where "dquote \<equiv> CHR 0x22"
abbreviation backslash :: char where "backslash \<equiv> CHR 0x5C"

definition crlf :: gostring where
  "crlf = [carriage, newline]"

text \<open>\<open>strings.Contains(s, sub)\<close>.\<close>

fun contains :: "gostring \<Rightarrow> gostring \<Rightarrow> bool" where
  "contains sub [] = (sub = [])"
| "contains sub (c # s) = (prefix sub (c # s) \<or> contains sub s)"

lemma contains_iff: "contains sub s \<longleftrightarrow> (\<exists>a b. s = a @ sub @ b)"
proof (induction s)
  case Nil
  then show ?case by auto
next
  case (Cons c s)
  show ?case
  proof
    assume "contains sub (c # s)"
    then consider "prefix sub (c # s)" | "contains sub s" by auto
    then show "\<exists>a b. c # s = a @ sub @ b"
    proof cases
      case 1
      then show ?thesis by (metis append_Nil prefixE)
    next
      case 2
      then show ?thesis using Cons.IH by (metis append_Cons)
    qed
  next
    assume "\<exists>a b. c # s = a @ sub @ b"
    then obtain a b where ab: "c # s = a @ sub @ b" by blast
    show "contains sub (c # s)"
    proof (cases a)
      case Nil
      then have "prefix sub (c # s)" using ab by simp
      then show ?thesis by simp
    next
      case (Cons d a')
      then show ?thesis using ab Cons.IH by auto
    qed
  qed
qed

lemma contains_append1 [intro]: "contains sub s \<Longrightarrow> contains sub (s @ t)"
  by (auto simp: contains_iff) (metis append_assoc)

lemma contains_append2 [intro]: "contains sub t \<Longrightarrow> contains sub (s @ t)"
  by (auto simp: contains_iff) (metis append_assoc)

text \<open>\<open>strings.Split(s, sep)\<close> for a one-byte separator: never empty.\<close>

fun split_on :: "char \<Rightarrow> gostring \<Rightarrow> gostring list" where
  "split_on sep [] = [[]]"
| "split_on sep (c # s) =
     (if c = sep then [] # split_on sep s
      else case split_on sep s of [] \<Rightarrow> [[c]] | w # ws \<Rightarrow> (c # w) # ws)"

text \<open>\<open>strings.Join(parts, sep)\<close> for a one-byte separator.\<close>

fun join_with :: "char \<Rightarrow> gostring list \<Rightarrow> gostring" where
  "join_with sep [] = []"
| "join_with sep [w] = w"
| "join_with sep (w # v # ws) = w @ sep # join_with sep (v # ws)"

lemma split_on_ne [simp]: "split_on sep s \<noteq> []"
  by (induction s) (auto split: list.splits)

lemma join_split_on [go_strings, simp]: "join_with sep (split_on sep s) = s"
proof (induction s)
  case Nil
  then show ?case by simp
next
  case (Cons c s)
  then show ?case
    by (cases "split_on sep s") (auto simp: neq_Nil_conv, (case_tac "list", auto)+)
qed

lemma split_on_no_sep: "w \<in> set (split_on sep s) \<Longrightarrow> sep \<notin> set w"
  by (induction s arbitrary: w) (auto split: if_splits list.splits)

lemma split_on_free [go_strings]: "sep \<notin> set w \<Longrightarrow> split_on sep w = [w]"
  by (induction w) auto

lemma split_on_append_sep [go_strings]:
  "split_on sep (w @ sep # s) = split_on sep w @ split_on sep s"
  by (induction w) (auto split: list.splits)

lemma split_on_free_sep [go_strings]:
  "sep \<notin> set w \<Longrightarrow> split_on sep (w @ sep # s) = w # split_on sep s"
  by (simp add: split_on_append_sep split_on_free)

lemma split_join [go_strings]:
  "ws \<noteq> [] \<Longrightarrow> \<forall>w \<in> set ws. sep \<notin> set w \<Longrightarrow> split_on sep (join_with sep ws) = ws"
  by (induction sep ws rule: join_with.induct) (auto simp: go_strings)

lemma set_split_on: "w \<in> set (split_on sep s) \<Longrightarrow> set w \<subseteq> set s"
  by (induction s arbitrary: w) (fastforce split: if_splits list.splits)+

text \<open>\<open>strings.Cut(s, sep)\<close> for a one-byte separator: the part before the first
  occurrence, the part after it, and whether it occurs.\<close>

fun cut_at :: "char \<Rightarrow> gostring \<Rightarrow> gostring \<times> gostring \<times> bool" where
  "cut_at sep [] = ([], [], False)"
| "cut_at sep (c # s) =
     (if c = sep then ([], s, True)
      else case cut_at sep s of (a, b, f) \<Rightarrow> (c # a, b, f))"

lemma cut_at_free [go_strings]: "sep \<notin> set s \<Longrightarrow> cut_at sep s = (s, [], False)"
  by (induction s) auto

lemma cut_at_found [go_strings]: "sep \<notin> set w \<Longrightarrow> cut_at sep (w @ sep # s) = (w, s, True)"
  by (induction w) auto

lemma cut_at_length: "cut_at sep s = (a, b, f) \<Longrightarrow> length b \<le> length s"
  by (induction s arbitrary: a b f) (auto split: if_splits prod.splits intro: le_SucI)

lemma cut_at_rest_less: "s \<noteq> [] \<Longrightarrow> cut_at sep s = (a, b, f) \<Longrightarrow> length b < length s"
  by (cases s) (auto split: if_splits prod.splits dest: cut_at_length intro: le_imp_less_Suc)

section \<open>Errors and fallible steps\<close>

text \<open>
  The proxy's own \<open>CreateError{Status, Message}\<close>, and the runtime panic that ends a
  handler when the code assigns into a nil map.
\<close>

datatype go_error =
    CreateError nat gostring
  | GoPanic gostring

type_synonym 'a res = "go_error + 'a"

definition res_bind :: "'e + 'a \<Rightarrow> ('a \<Rightarrow> 'e + 'b) \<Rightarrow> 'e + 'b" where
  "res_bind r f = (case r of Inl e \<Rightarrow> Inl e | Inr x \<Rightarrow> f x)"

lemma res_bind_simps [simp, res_simps]:
  "res_bind (Inl e) f = Inl e"
  "res_bind (Inr x) f = f x"
  by (simp_all add: res_bind_def)

lemma res_bind_Inr [res_simps]:
  "res_bind r f = Inr y \<longleftrightarrow> (\<exists>x. r = Inr x \<and> f x = Inr y)"
  by (cases r) auto

lemma res_bind_Inl [res_simps]:
  "res_bind r f = Inl e \<longleftrightarrow> r = Inl e \<or> (\<exists>x. r = Inr x \<and> f x = Inl e)"
  by (cases r) auto

text \<open>A \<open>for\<close> loop that stops at the first error and collects what each step returns.\<close>

fun res_map :: "('a \<Rightarrow> 'e + 'b) \<Rightarrow> 'a list \<Rightarrow> 'e + 'b list" where
  "res_map f [] = Inr []"
| "res_map f (x # xs) = res_bind (f x) (\<lambda>y. res_bind (res_map f xs) (\<lambda>ys. Inr (y # ys)))"

lemma res_map_Inr:
  "res_map f xs = Inr ys \<longleftrightarrow> list_all2 (\<lambda>x y. f x = Inr y) xs ys"
  by (induction xs arbitrary: ys) (auto simp: res_bind_Inr list_all2_Cons1)

lemma res_map_Inr_length: "res_map f xs = Inr ys \<Longrightarrow> length ys = length xs"
  by (auto simp: res_map_Inr dest: list_all2_lengthD)

lemma res_map_Inl: "res_map f xs = Inl e \<Longrightarrow> \<exists>x \<in> set xs. f x = Inl e"
  by (induction xs) (auto simp: res_bind_Inl)

text \<open>A \<open>for\<close> loop that only checks: the first error, or none.\<close>

fun first_error :: "('a \<Rightarrow> 'e option) \<Rightarrow> 'a list \<Rightarrow> 'e option" where
  "first_error f [] = None"
| "first_error f (x # xs) = (case f x of Some e \<Rightarrow> Some e | None \<Rightarrow> first_error f xs)"

lemma first_error_None [res_simps]:
  "first_error f xs = None \<longleftrightarrow> (\<forall>x \<in> set xs. f x = None)"
  by (induction xs) (auto split: option.splits)

lemma first_error_Some: "first_error f xs = Some e \<Longrightarrow> \<exists>x \<in> set xs. f x = Some e"
  by (induction xs) (auto split: option.splits)

definition guard :: "'e option \<Rightarrow> 'e + unit" where
  "guard e = (case e of Some x \<Rightarrow> Inl x | None \<Rightarrow> Inr ())"

lemma guard_simps [simp, res_simps]:
  "guard (Some e) = Inl e"
  "guard None = Inr ()"
  by (simp_all add: guard_def)

lemma guard_Inr [res_simps]: "guard e = Inr u \<longleftrightarrow> e = None"
  by (cases e) auto

section \<open>Decimal numerals\<close>

text \<open>\<open>strconv.Itoa\<close> and the verb \<open>%d\<close> on a non-negative number.\<close>

function itoa :: "int \<Rightarrow> gostring" where
  "itoa n = (if n < 10 then [byte (48 + nat n)] else itoa (n div 10) @ [byte (48 + nat (n mod 10))])"
  by pat_completeness auto
termination by (relation "measure nat") auto

declare itoa.simps [simp del]

lemma itoa_ne [simp]: "itoa n \<noteq> []"
  by (subst itoa.simps) simp

section \<open>Bytes by their bits\<close>

text \<open>The comparisons of bytes by their bits, for evaluation.\<close>

fun char_bits :: "char \<Rightarrow> bool list" where
  "char_bits (Char b0 b1 b2 b3 b4 b5 b6 b7) = [b7, b6, b5, b4, b3, b2, b1, b0]"

fun bits_le :: "bool list \<Rightarrow> bool list \<Rightarrow> bool" where
  "bits_le (a # as) (b # bs) \<longleftrightarrow> (if a = b then bits_le as bs else b)"
| "bits_le _ _ \<longleftrightarrow> True"

fun bits_val :: "bool list \<Rightarrow> nat" where
  "bits_val [] = 0"
| "bits_val (a # as) = of_bool a * 2 ^ length as + bits_val as"

lemma bits_val_less: "bits_val as < 2 ^ length as"
  by (induction as) (auto simp: of_bool_def)

lemma bits_le_val: "length as = length bs \<Longrightarrow> bits_le as bs \<longleftrightarrow> bits_val as \<le> bits_val bs"
proof (induction as bs rule: bits_le.induct)
  case (1 a as b bs)
  then show ?case
    using bits_val_less [of as] bits_val_less [of bs] by (auto simp: not_le)
qed auto

lemma char_bits_val: "of_char c = bits_val (char_bits c)" "length (char_bits c) = 8"
  by (cases c, simp)+

lemma char_le_bits: "(of_char c :: nat) \<le> of_char d \<longleftrightarrow> bits_le (char_bits c) (char_bits d)"
  by (simp add: char_bits_val bits_le_val)

text \<open>Bytes below 0x80 and below 0x20.\<close>

fun is_ascii :: "char \<Rightarrow> bool" where
  "is_ascii (Char b0 b1 b2 b3 b4 b5 b6 b7) \<longleftrightarrow> \<not> b7"

fun is_control :: "char \<Rightarrow> bool" where
  "is_control (Char b0 b1 b2 b3 b4 b5 b6 b7) \<longleftrightarrow> \<not> b7 \<and> \<not> b6 \<and> \<not> b5"

lemma is_ascii_iff: "is_ascii c \<longleftrightarrow> (of_char c :: nat) < 0x80"
  using bits_le_val [of "char_bits (CHR 0x80)" "char_bits c"] char_le_bits [of "CHR 0x80" c]
  by (cases c) (auto simp: not_le [symmetric])

lemma is_control_iff: "is_control c \<longleftrightarrow> (of_char c :: nat) < 0x20"
  using char_le_bits [of "CHR '' ''" c] by (cases c) (auto simp: not_le [symmetric])

end
