(* ===== verification/Paths.thy ===== *)
theory Paths
  imports Prelude
begin

text \<open>
  \<open>internal/proxy/paths.go\<close>: \<open>ResolvePath\<close> and \<open>IsPathAllowed\<close>, over a model of the host's
  file tree and of the two \<open>path/filepath\<close> functions they call, \<open>Clean\<close> and
  \<open>EvalSymlinks\<close> (on absolute paths, the only ones that reach it).  \<open>EvalSymlinks\<close> is the
  library's walk: component by component, with the limit of 255 links that makes it stop.

  The contract the create validation relies on is the locale \<open>path_policy\<close>: resolving an
  absolute source gives a clean absolute path, and an allowed clean path lies inside one of
  the user's roots, component-wise.
\<close>

section \<open>Lexical paths\<close>

text \<open>The components a clean absolute path is made of.\<close>

definition plain_comp :: "gostring \<Rightarrow> bool" where
  "plain_comp c \<longleftrightarrow> c \<noteq> [] \<and> c \<noteq> ''.'' \<and> c \<noteq> ''..'' \<and> CHR ''/'' \<notin> set c"

definition plain_comps :: "gostring list \<Rightarrow> bool" where
  "plain_comps cs \<longleftrightarrow> (\<forall>c \<in> set cs. plain_comp c)"

definition abs_path :: "gostring list \<Rightarrow> gostring" where
  "abs_path cs = CHR ''/'' # join_with CHR ''/'' cs"

text \<open>\<open>filepath.Clean\<close>, with the output kept as a stack of components.\<close>

fun clean_comps :: "bool \<Rightarrow> gostring list \<Rightarrow> gostring list \<Rightarrow> gostring list" where
  "clean_comps rooted out [] = rev out"
| "clean_comps rooted out (c # cs) =
     (if c = [] \<or> c = ''.'' then clean_comps rooted out cs
      else if c = ''..'' then
        (case out of
           [] \<Rightarrow> clean_comps rooted (if rooted then [] else [c]) cs
         | d # ds \<Rightarrow> clean_comps rooted (if d = ''..'' then c # out else ds) cs)
      else clean_comps rooted (c # out) cs)"

definition clean :: "gostring \<Rightarrow> gostring" where
  "clean p =
     (if p = [] then ''.''
      else let rooted = prefix ''/'' p;
               cs = clean_comps rooted [] (split_on CHR ''/'' p)
           in if rooted then abs_path cs
              else if cs = [] then ''.'' else join_with CHR ''/'' cs)"

lemma plain_comps_simps [simp]:
  "plain_comps []"
  "plain_comps (c # cs) \<longleftrightarrow> plain_comp c \<and> plain_comps cs"
  "plain_comps (cs @ ds) \<longleftrightarrow> plain_comps cs \<and> plain_comps ds"
  "plain_comps (rev cs) \<longleftrightarrow> plain_comps cs"
  by (auto simp: plain_comps_def)

lemma split_abs_path:
  "plain_comps cs \<Longrightarrow> split_on CHR ''/'' (abs_path cs) = [] # (if cs = [] then [[]] else cs)"
  by (auto simp: abs_path_def plain_comps_def plain_comp_def split_join)

lemma abs_path_Nil_iff: "plain_comps cs \<Longrightarrow> abs_path cs = ''/'' \<longleftrightarrow> cs = []"
  by (cases cs; cases "tl cs") (auto simp: abs_path_def plain_comp_def)

lemma abs_path_inj:
  assumes "plain_comps cs" "plain_comps ds"
  shows "abs_path cs = abs_path ds \<longleftrightarrow> cs = ds"
proof
  assume eq: "abs_path cs = abs_path ds"
  then have "(cs = []) = (ds = [])"
    using abs_path_Nil_iff assms by metis
  moreover have "[] # (if cs = [] then [[]] else cs) = [] # (if ds = [] then [[]] else ds)"
    using split_abs_path [OF assms(1)] split_abs_path [OF assms(2)] by (simp only: eq)
  ultimately show "cs = ds"
    by (cases "cs = []") simp_all
qed simp

lemma clean_comps_rooted_plain:
  "plain_comps out \<Longrightarrow> \<forall>c \<in> set cs. CHR ''/'' \<notin> set c \<Longrightarrow> plain_comps (clean_comps True out cs)"
  by (induction "True" out cs rule: clean_comps.induct)
     (auto simp: plain_comp_def split: list.splits)

lemma clean_comps_plain: "plain_comps cs \<Longrightarrow> clean_comps rooted out cs = rev out @ cs"
  by (induction cs arbitrary: out) (auto simp: plain_comp_def)

lemma clean_absolute:
  assumes "prefix ''/'' p"
  obtains cs where "clean p = abs_path cs" "plain_comps cs"
proof -
  have "plain_comps (clean_comps True [] (split_on CHR ''/'' p))"
    by (rule clean_comps_rooted_plain) (auto dest: split_on_no_sep)
  moreover have "clean p = abs_path (clean_comps True [] (split_on CHR ''/'' p))"
    using assms by (auto simp: clean_def Let_def)
  ultimately show thesis using that by blast
qed

lemma clean_abs_path [simp]:
  assumes "plain_comps cs"
  shows "clean (abs_path cs) = abs_path cs"
proof -
  have "clean (abs_path cs) = abs_path (clean_comps True [] (split_on CHR ''/'' (abs_path cs)))"
    by (simp add: clean_def Let_def) (simp add: abs_path_def)
  also have "\<dots> = abs_path cs"
    using assms by (simp add: split_abs_path clean_comps_plain)
  finally show ?thesis .
qed

section \<open>The file tree and EvalSymlinks\<close>

datatype fnode = Dir | File | Symlink gostring

type_synonym fsys = "gostring list \<Rightarrow> fnode option"

datatype fs_error = NotExist | NotDir | TooManyLinks

text \<open>
  \<open>walkSymlinks\<close>: \<open>dest\<close> is the resolved part, innermost component first; \<open>n\<close> counts the
  links walked so far.  A relative link continues from the directory that holds it.
\<close>

function walk :: "fsys \<Rightarrow> nat \<Rightarrow> gostring list \<Rightarrow> gostring list \<Rightarrow> fs_error + gostring list" where
  "walk fs n dest [] = Inr (rev dest)"
| "walk fs n dest (c # cs) =
     (if c = [] \<or> c = ''.'' then walk fs n dest cs
      else if c = ''..'' then walk fs n (tl dest) cs
      else case fs (rev (c # dest)) of
             None \<Rightarrow> Inl NotExist
           | Some Dir \<Rightarrow> walk fs n (c # dest) cs
           | Some File \<Rightarrow> if cs \<noteq> [] then Inl NotDir else walk fs n (c # dest) cs
           | Some (Symlink t) \<Rightarrow>
               if Suc n > 255 then Inl TooManyLinks
               else walk fs (Suc n) (if prefix ''/'' t then [] else dest)
                      (split_on CHR ''/'' t @ cs))"
  by pat_completeness auto
termination
  by (relation "measures [\<lambda>(fs, n, dest, cs). 256 - n, \<lambda>(fs, n, dest, cs). length cs]") auto

definition eval_symlinks :: "fsys \<Rightarrow> gostring \<Rightarrow> fs_error + gostring" where
  "eval_symlinks fs p =
     (case walk fs 0 [] (split_on CHR ''/'' p) of Inl e \<Rightarrow> Inl e | Inr cs \<Rightarrow> Inr (abs_path cs))"

text \<open>A path every component of which exists and is not a link: what the kernel reaches
  through it is what its spelling says.\<close>

definition canonical :: "fsys \<Rightarrow> gostring list \<Rightarrow> bool" where
  "canonical fs cs \<longleftrightarrow>
     (\<forall>k < length cs. fs (take (Suc k) cs) = Some Dir
        \<or> fs (take (Suc k) cs) = Some File \<and> Suc k = length cs)"

definition real_dir :: "fsys \<Rightarrow> gostring list \<Rightarrow> bool" where
  "real_dir fs cs \<longleftrightarrow> (\<forall>k < length cs. fs (take (Suc k) cs) = Some Dir)"

lemma real_dir_Nil [simp]: "real_dir fs []"
  by (simp add: real_dir_def)

lemma real_dir_snoc: "real_dir fs (cs @ [c]) \<longleftrightarrow> real_dir fs cs \<and> fs (cs @ [c]) = Some Dir"
  by (auto simp: real_dir_def less_Suc_eq)

lemma real_dir_butlast: "real_dir fs cs \<Longrightarrow> real_dir fs (butlast cs)"
  by (cases cs rule: rev_cases) (auto simp: real_dir_snoc)

lemma real_dir_canonical: "real_dir fs cs \<Longrightarrow> canonical fs cs"
  by (auto simp: real_dir_def canonical_def)

lemma canonical_file: "real_dir fs cs \<Longrightarrow> fs (cs @ [c]) = Some File \<Longrightarrow> canonical fs (cs @ [c])"
  by (auto simp: real_dir_def canonical_def less_Suc_eq)

lemma walk_canonical:
  assumes "walk fs n dest cs = Inr res" "real_dir fs (rev dest)"
    and "plain_comps dest" "\<forall>c \<in> set cs. CHR ''/'' \<notin> set c"
  shows "canonical fs res \<and> plain_comps res"
  using assms
proof (induction fs n dest cs rule: walk.induct)
  case (1 fs n dest)
  then show ?case by (auto intro: real_dir_canonical)
next
  case (2 fs n dest c cs)
  have tl: "real_dir fs (rev (tl dest))" "plain_comps (tl dest)"
    using "2.prems" real_dir_butlast [of fs "rev dest"] by (cases dest; simp)+
  consider (skip) "c = [] \<or> c = ''.''" | (up) "c = ''..''" | (ord) "plain_comp c"
    using "2.prems" by (auto simp: plain_comp_def)
  then show ?case
  proof cases
    case skip
    then show ?thesis using "2.IH"(1) "2.prems" by simp
  next
    case up
    then show ?thesis using "2.IH"(2) "2.prems" tl by simp
  next
    case ord
    then have c: "\<not> (c = [] \<or> c = ''.'')" "c \<noteq> ''..''" by (auto simp: plain_comp_def)
    show ?thesis
    proof (cases "fs (rev (c # dest))")
      case None
      then show ?thesis using "2.prems" c by simp
    next
      case (Some node)
      show ?thesis
      proof (cases node)
        case Dir
        then have "real_dir fs (rev (c # dest))"
          using Some "2.prems" by (simp add: real_dir_snoc)
        then show ?thesis using "2.IH"(3) [OF c Some Dir] "2.prems" c Some Dir ord by simp
      next
        case File
        then have "cs = [] \<and> res = rev (c # dest)"
          using "2.prems"(1) c Some by (simp split: if_splits)
        then show ?thesis
          using canonical_file [of fs "rev dest" c] "2.prems" Some File ord by simp
      next
        case (Symlink t)
        then show ?thesis
          using "2.IH"(5) [OF c Some Symlink] "2.prems" c Some
          by (auto split: if_splits dest: split_on_no_sep)
      qed
    qed
  qed
qed

lemma walk_real_dirs:
  assumes "real_dir fs (rev dest @ cs)" "plain_comps cs"
  shows "walk fs n dest (cs @ rest) = walk fs n (rev cs @ dest) rest"
  using assms
proof (induction cs arbitrary: dest)
  case (Cons c cs)
  have "fs (take (Suc (length dest)) (rev dest @ c # cs)) = Some Dir"
    using Cons.prems(1) unfolding real_dir_def by (elim allE [of _ "length dest"]) simp
  then show ?case
    using Cons.IH [of "c # dest"] Cons.prems by (simp add: plain_comp_def)
qed simp

lemma canonical_cases:
  assumes "canonical fs cs"
  obtains "real_dir fs cs"
    | ds c where "cs = ds @ [c]" "real_dir fs ds" "fs cs = Some File"
proof (cases "real_dir fs cs")
  case False
  then have ne: "cs \<noteq> []" by auto
  have "real_dir fs (butlast cs)"
    unfolding real_dir_def
  proof (intro allI impI)
    fix k assume "k < length (butlast cs)"
    then have k: "k < length cs" "Suc k \<noteq> length cs" "take (Suc k) (butlast cs) = take (Suc k) cs"
      by (auto simp: take_butlast)
    then show "fs (take (Suc k) (butlast cs)) = Some Dir"
      using assms unfolding canonical_def by (metis (no_types, lifting))
  qed
  moreover have "fs cs = Some File"
  proof -
    have "fs cs \<noteq> Some Dir"
      using \<open>real_dir fs (butlast cs)\<close> False ne real_dir_snoc [of fs "butlast cs" "last cs"] by auto
    then show ?thesis
      using assms ne unfolding canonical_def by (elim allE [of _ "length cs - 1"]) simp
  qed
  ultimately show thesis using that(2) [of "butlast cs" "last cs"] ne by simp
qed (rule that(1))

lemma walk_canonical_id:
  assumes "canonical fs cs" "plain_comps cs"
  shows "walk fs 0 [] cs = Inr cs"
  using assms(1)
proof (cases rule: canonical_cases)
  case 1
  then show ?thesis using walk_real_dirs [of fs "[]" cs 0 "[]"] assms(2) by simp
next
  case (2 ds c)
  then show ?thesis
    using walk_real_dirs [of fs "[]" ds 0 "[c]"] assms(2) by (simp add: plain_comp_def)
qed

lemma eval_symlinks_abs_path:
  "plain_comps cs \<Longrightarrow> eval_symlinks fs (abs_path cs) =
     (case walk fs 0 [] cs of Inl e \<Rightarrow> Inl e | Inr ds \<Rightarrow> Inr (abs_path ds))"
  by (cases "cs = []") (simp_all add: eval_symlinks_def split_abs_path)

lemma eval_symlinks_canonical:
  assumes "eval_symlinks fs p = Inr q"
  obtains cs where "q = abs_path cs" "plain_comps cs" "canonical fs cs"
proof -
  obtain cs where w: "walk fs 0 [] (split_on CHR ''/'' p) = Inr cs" and q: "q = abs_path cs"
    using assms by (auto simp: eval_symlinks_def split: sum.splits)
  have "canonical fs cs \<and> plain_comps cs"
    by (rule walk_canonical [OF w]) (auto dest: split_on_no_sep)
  then show thesis using that q by blast
qed

section \<open>ResolvePath and IsPathAllowed\<close>

text \<open>The package variables, with their defaults; the tests override them.\<close>

record path_config =
  workspaces_dir :: gostring
  users_home_prefix :: gostring
  proxy_socket_dir :: gostring

definition default_paths :: path_config where
  "default_paths = \<lparr> workspaces_dir = ''/Users/Workspaces'', users_home_prefix = ''/Users'',
     proxy_socket_dir = ''/var/run/isolator-docker'' \<rparr>"

definition max_body_size :: int where
  "max_body_size = 16 * 1024 * 1024"

definition owner_label :: gostring where
  "owner_label = ''dev.boris.isolator.user''"

definition under_root :: "gostring \<Rightarrow> gostring \<Rightarrow> bool" where
  "under_root root path \<longleftrightarrow> path = root \<or> prefix (root @ ''/'') path"

definition socket_literal :: "path_config \<Rightarrow> gostring \<Rightarrow> gostring" where
  "socket_literal cfg user = proxy_socket_dir cfg @ ''/'' @ user @ ''.sock''"

definition is_path_allowed :: "path_config \<Rightarrow> fsys \<Rightarrow> gostring \<Rightarrow> gostring \<Rightarrow> bool" where
  "is_path_allowed cfg fs path user =
     (if under_root (workspaces_dir cfg @ ''/'' @ user) path then True
      else if under_root (users_home_prefix cfg @ ''/'' @ user @ ''/tmp'') path then True
      else if under_root (users_home_prefix cfg @ ''/'' @ user @ ''/.isolator-docker-proxy'') path
        then True
      else let literal = socket_literal cfg user
           in if path = literal then True
              else case eval_symlinks fs literal of
                     Inr resolved \<Rightarrow> path = resolved
                   | Inl e \<Rightarrow> False)"

definition resolve_path :: "fsys \<Rightarrow> gostring \<Rightarrow> gostring" where
  "resolve_path fs source =
     (let cleaned = clean source
      in case eval_symlinks fs cleaned of Inl e \<Rightarrow> cleaned | Inr resolved \<Rightarrow> resolved)"

lemma resolve_path_abs:
  assumes "prefix ''/'' source"
  obtains cs where "plain_comps cs" "resolve_path fs source = abs_path cs"
proof -
  obtain cs where "clean source = abs_path cs" "plain_comps cs"
    using clean_absolute [OF assms] .
  then show thesis
    using that by (cases "eval_symlinks fs (clean source)")
      (auto simp: resolve_path_def Let_def elim: eval_symlinks_canonical)
qed

lemma resolve_path_twice:
  assumes "prefix ''/'' source"
  shows "resolve_path fs (resolve_path fs source) = resolve_path fs source"
proof (cases "eval_symlinks fs (clean source)")
  case (Inl e)
  obtain cs where "clean source = abs_path cs" "plain_comps cs"
    using clean_absolute [OF assms] .
  then show ?thesis using Inl by (simp add: resolve_path_def Let_def)
next
  case (Inr q)
  obtain cs where cs: "q = abs_path cs" "plain_comps cs" "canonical fs cs"
    using eval_symlinks_canonical [OF Inr] .
  then have "eval_symlinks fs q = Inr q"
    by (simp add: eval_symlinks_abs_path walk_canonical_id)
  then show ?thesis using Inr cs by (simp add: resolve_path_def Let_def)
qed

subsection \<open>Roots as component prefixes\<close>

lemma abs_path_snoc: "cs \<noteq> [] \<Longrightarrow> abs_path (cs @ [c]) = abs_path cs @ ''/'' @ c"
proof (induction cs rule: induct_list012)
  case (3 x y zs)
  then show ?case by (simp add: abs_path_def)
qed (simp_all add: abs_path_def)

lemma abs_path_append: "cs \<noteq> [] \<Longrightarrow> ds \<noteq> [] \<Longrightarrow> abs_path (cs @ ds) = abs_path cs @ abs_path ds"
proof (induction ds rule: rev_induct)
  case (snoc d ds)
  then show ?case
    by (cases "ds = []") (use abs_path_snoc [of "cs @ ds" d] abs_path_snoc [of ds d]
        abs_path_snoc [of cs d] in \<open>simp_all add: abs_path_def\<close>)
qed simp

lemma under_root_abs_path:
  assumes "plain_comps rs" "rs \<noteq> []" "plain_comps cs"
  shows "under_root (abs_path rs) (abs_path cs) \<longleftrightarrow> prefix rs cs"
proof
  assume "prefix rs cs"
  then obtain ds where "cs = rs @ ds" by (auto simp: prefix_def)
  then show "under_root (abs_path rs) (abs_path cs)"
    using abs_path_append [OF assms(2), of ds]
    by (cases "ds = []") (auto simp: under_root_def abs_path_def)
next
  assume "under_root (abs_path rs) (abs_path cs)"
  then consider "abs_path cs = abs_path rs" | u where "abs_path cs = abs_path rs @ ''/'' @ u"
    by (auto simp: under_root_def prefix_def)
  then show "prefix rs cs"
  proof cases
    case 1
    then show ?thesis using assms abs_path_inj by blast
  next
    case 2
    have "split_on CHR ''/'' (abs_path cs)
        = split_on CHR ''/'' (abs_path rs) @ split_on CHR ''/'' u"
      using 2 split_on_append_sep [of "CHR ''/''" "abs_path rs" u] by simp
    then have "[] # (if cs = [] then [[]] else cs) = [] # rs @ split_on CHR ''/'' u"
      using assms by (simp add: split_abs_path)
    then show ?thesis
      using assms(2) by (cases "cs = []") (auto simp: Cons_eq_append_conv append_eq_Cons_conv)
  qed
qed

text \<open>A configuration whose three directories are clean absolute paths.\<close>

definition config_at ::
  "path_config \<Rightarrow> gostring list \<Rightarrow> gostring list \<Rightarrow> gostring list \<Rightarrow> bool" where
  "config_at cfg ws us sd \<longleftrightarrow>
     workspaces_dir cfg = abs_path ws \<and> users_home_prefix cfg = abs_path us
     \<and> proxy_socket_dir cfg = abs_path sd
     \<and> ws \<noteq> [] \<and> us \<noteq> [] \<and> sd \<noteq> [] \<and> plain_comps ws \<and> plain_comps us \<and> plain_comps sd"

lemma config_at_default:
  "config_at default_paths [''Users'', ''Workspaces''] [''Users'']
     [''var'', ''run'', ''isolator-docker'']"
  by (simp add: config_at_def default_paths_def abs_path_def plain_comp_def)

definition user_roots :: "gostring list \<Rightarrow> gostring list \<Rightarrow> gostring \<Rightarrow> gostring list list" where
  "user_roots ws us user =
     [ws @ [user], us @ [user, ''tmp''], us @ [user, ''.isolator-docker-proxy'']]"

lemma plain_comp_fixed [simp]: "plain_comp ''tmp''" "plain_comp ''.isolator-docker-proxy''"
  by (simp_all add: plain_comp_def)

lemma plain_comp_sock [simp]: "plain_comp user \<Longrightarrow> plain_comp (user @ ''.sock'')"
  by (auto simp: plain_comp_def append_eq_Cons_conv)

lemma socket_literal_at:
  "config_at cfg ws us sd \<Longrightarrow> socket_literal cfg user = abs_path (sd @ [user @ ''.sock''])"
  by (simp add: config_at_def socket_literal_def abs_path_snoc)

text \<open>C9. An allowed clean path is, component by component, inside the user's workspace, the user's
  temporary directory or the user's certificate directory, or it is the user's own proxy
  socket, literally or resolved.\<close>

theorem is_path_allowed_iff:
  assumes "config_at cfg ws us sd" "plain_comp user" "plain_comps cs"
  shows "is_path_allowed cfg fs (abs_path cs) user \<longleftrightarrow>
     (\<exists>r \<in> set (user_roots ws us user). prefix r cs)
     \<or> cs = sd @ [user @ ''.sock'']
     \<or> eval_symlinks fs (abs_path (sd @ [user @ ''.sock''])) = Inr (abs_path cs)"
proof -
  note at = assms(1) [unfolded config_at_def]
  have ne: "ws @ [user] \<noteq> []" "us @ [user, ''tmp''] \<noteq> []"
    "us @ [user, ''.isolator-docker-proxy''] \<noteq> []" by simp_all
  have pl: "plain_comps (ws @ [user])" "plain_comps (us @ [user, ''tmp''])"
    "plain_comps (us @ [user, ''.isolator-docker-proxy''])" "plain_comps (sd @ [user @ ''.sock''])"
    using at assms(2) by simp_all
  have roots: "workspaces_dir cfg @ ''/'' @ user = abs_path (ws @ [user])"
    "users_home_prefix cfg @ ''/'' @ user @ ''/tmp'' = abs_path (us @ [user, ''tmp''])"
    "users_home_prefix cfg @ ''/'' @ user @ ''/.isolator-docker-proxy''
       = abs_path (us @ [user, ''.isolator-docker-proxy''])"
    using at abs_path_snoc [of ws user] abs_path_snoc [of us user]
      abs_path_snoc [of "us @ [user]" "''tmp''"]
      abs_path_snoc [of "us @ [user]" "''.isolator-docker-proxy''"] by simp_all
  have lit: "abs_path cs = abs_path (sd @ [user @ ''.sock'']) \<longleftrightarrow> cs = sd @ [user @ ''.sock'']"
    by (rule abs_path_inj [OF assms(3) pl(4)])
  show ?thesis
    by (simp only: is_path_allowed_def roots socket_literal_at [OF assms(1)] Let_def lit
        under_root_abs_path [OF pl(1) ne(1) assms(3)] under_root_abs_path [OF pl(2) ne(2) assms(3)]
        under_root_abs_path [OF pl(3) ne(3) assms(3)] user_roots_def)
      (cases "eval_symlinks fs (abs_path (sd @ [user @ ''.sock'']))"; auto)
qed

theorem is_path_allowed_iff_witness:
  "is_path_allowed default_paths (\<lambda>_. None)
      (abs_path [''Users'', ''Workspaces'', ''alice'', ''repo'']) ''alice''
   \<and> \<not> is_path_allowed default_paths (\<lambda>_. None)
      (abs_path [''Users'', ''Workspaces'', ''alicex'', ''repo'']) ''alice''"
  using is_path_allowed_iff [OF config_at_default, of "''alice''"
      "[''Users'', ''Workspaces'', ''alice'', ''repo'']" "\<lambda>_. None"]
    is_path_allowed_iff [OF config_at_default, of "''alice''"
      "[''Users'', ''Workspaces'', ''alicex'', ''repo'']" "\<lambda>_. None"]
  by (simp add: plain_comp_def user_roots_def eval_symlinks_def abs_path_def)

text \<open>The socket either does not exist or lies, links resolved, in a directory outside
  \<open>/Users\<close> under its own name (on macOS in \<open>/private/var/run/isolator-docker\<close>).\<close>

definition socket_placed :: "fsys \<Rightarrow> gostring list \<Rightarrow> gostring \<Rightarrow> bool" where
  "socket_placed fs rd user \<longleftrightarrow>
     (case eval_symlinks fs (socket_literal default_paths user) of
        Inl e \<Rightarrow> True
      | Inr p \<Rightarrow> p = abs_path (rd @ [user @ ''.sock'']))
     \<and> plain_comps rd \<and> \<not> prefix [''Users''] rd"

lemma allowed_default_shape:
  assumes "is_path_allowed default_paths fs (abs_path cs) user"
    and "plain_comp user" "plain_comps cs" "socket_placed fs rd user"
  shows "(\<exists>t. cs = ''Users'' # ''Workspaces'' # user # t)
    \<or> (\<exists>d t. cs = ''Users'' # user # d # t)
    \<or> (\<exists>d. cs = d @ [user @ ''.sock''] \<and> \<not> prefix [''Users''] d)"
proof -
  let ?sd = "[''var'', ''run'', ''isolator-docker'']"
  consider (root) r where "r \<in> set (user_roots [''Users'', ''Workspaces''] [''Users''] user)"
      "prefix r cs"
    | (lit) "cs = ?sd @ [user @ ''.sock'']"
    | (res) "eval_symlinks fs (abs_path (?sd @ [user @ ''.sock''])) = Inr (abs_path cs)"
    using is_path_allowed_iff [OF config_at_default assms(2,3)] assms(1) by blast
  then show ?thesis
  proof cases
    case root
    then show ?thesis by (auto simp: user_roots_def prefix_def)
  next
    case lit
    then show ?thesis by (intro disjI2 exI [of _ ?sd]) simp
  next
    case res
    then have "abs_path cs = abs_path (rd @ [user @ ''.sock''])"
      using assms(4) socket_literal_at [OF config_at_default] by (simp add: socket_placed_def)
    then have "cs = rd @ [user @ ''.sock'']"
      using assms(2-4) abs_path_inj [of cs "rd @ [user @ ''.sock'']"]
      by (simp add: socket_placed_def)
    then show ?thesis using assms(4) by (auto simp: socket_placed_def)
  qed
qed

text \<open>C19. With the default directories no path is allowed to two users, under two conditions: neither user
  is called \<open>Workspaces\<close>, whose home would hold everybody's workspaces (\<open>workspaces_overlap\<close>), and
  the socket of each user, where it resolves, resolves to a file named after the user outside
  \<open>/Users\<close>.  Then a clean path that passes \<open>IsPathAllowed\<close> for one user fails it for the other.\<close>

theorem allowed_paths_disjoint:
  assumes "u \<noteq> v" "plain_comp u" "plain_comp v" "u \<noteq> ''Workspaces''" "v \<noteq> ''Workspaces''"
    and "socket_placed fs rd u" "socket_placed fs rd' v" "plain_comps cs"
    and "is_path_allowed default_paths fs (abs_path cs) u"
  shows "\<not> is_path_allowed default_paths fs (abs_path cs) v"
proof
  assume v: "is_path_allowed default_paths fs (abs_path cs) v"
  show False
    using allowed_default_shape [OF assms(9,2,8,6)] allowed_default_shape [OF v assms(3,8,7)]
      assms(1,4,5)
    by (elim disjE exE conjE) (auto simp: prefix_def Cons_eq_append_conv append_eq_Cons_conv)
qed

definition mac_fs :: fsys where
  "mac_fs cs =
     (if cs \<in> set [[''private''], [''private'', ''var''], [''private'', ''var'', ''run''],
        [''private'', ''var'', ''run'', ''isolator-docker'']] then Some Dir
      else if cs \<in> set [[''private'', ''var'', ''run'', ''isolator-docker'', ''alice.sock''],
        [''private'', ''var'', ''run'', ''isolator-docker'', ''bob.sock'']] then Some File
      else if cs = [''var''] then Some (Symlink ''private/var'')
      else None)"

theorem allowed_paths_disjoint_witness:
  "\<not> is_path_allowed default_paths mac_fs
       (abs_path [''private'', ''var'', ''run'', ''isolator-docker'', ''alice.sock'']) ''bob''"
  by (rule allowed_paths_disjoint [of "''alice''" _ _ "[''private'', ''var'', ''run'',
      ''isolator-docker'']" "[''private'', ''var'', ''run'', ''isolator-docker'']"]; code_simp)

text \<open>The first condition is needed.\<close>

lemma workspaces_overlap:
  "is_path_allowed default_paths mac_fs ''/Users/Workspaces/tmp/x'' ''Workspaces''
   \<and> is_path_allowed default_paths mac_fs ''/Users/Workspaces/tmp/x'' ''tmp''"
  by code_simp

text \<open>C20. \<open>ResolvePath\<close> of an absolute source is a clean absolute path, and resolving it again
  changes nothing; where the source exists, no component of the result is a symbolic link.\<close>

theorem resolve_path_normal:
  assumes "prefix ''/'' source"
  shows "\<exists>cs. plain_comps cs \<and> resolve_path fs source = abs_path cs
      \<and> resolve_path fs (abs_path cs) = abs_path cs
      \<and> (case eval_symlinks fs (clean source) of Inl e \<Rightarrow> True | Inr q \<Rightarrow> canonical fs cs)"
proof (cases "eval_symlinks fs (clean source)")
  case (Inl e)
  obtain cs where "plain_comps cs" "resolve_path fs source = abs_path cs"
    using resolve_path_abs [OF assms] .
  then show ?thesis
    using Inl resolve_path_twice [OF assms, of fs] by (intro exI [of _ cs]) simp
next
  case (Inr q)
  then obtain cs where cs: "q = abs_path cs" "plain_comps cs" "canonical fs cs"
    using eval_symlinks_canonical by blast
  then have "resolve_path fs source = abs_path cs"
    using Inr by (simp add: resolve_path_def Let_def)
  then show ?thesis
    using Inr cs resolve_path_twice [OF assms, of fs] by (intro exI [of _ cs]) simp
qed

theorem resolve_path_normal_witness:
  "\<exists>cs. plain_comps cs \<and> resolve_path mac_fs ''/var/run/../run/isolator-docker/bob.sock'' = abs_path cs
      \<and> canonical mac_fs cs"
proof -
  have e: "eval_symlinks mac_fs (clean ''/var/run/../run/isolator-docker/bob.sock'')
      = Inr ''/private/var/run/isolator-docker/bob.sock''"
    by code_simp
  show ?thesis
    using resolve_path_normal [of "''/var/run/../run/isolator-docker/bob.sock''" mac_fs]
    unfolding e by auto
qed

definition link_fs :: fsys where
  "link_fs cs =
     (if cs \<in> set [[''Users''], [''Users'', ''Workspaces''], [''Users'', ''Workspaces'', ''alice''],
        [''etc'']] then Some Dir
      else if cs = [''Users'', ''Workspaces'', ''alice'', ''out''] then Some (Symlink ''/etc'')
      else None)"

text \<open>The fallback does not follow a symbolic link in the parent of a path that does not exist:
  a source below a link that leaves the workspace resolves to itself, is allowed, and leads
  outside the roots as soon as its last component exists.\<close>

theorem resolve_fallback_escapes:
  "let source = ''/Users/Workspaces/alice/out/new'';
       later = (\<lambda>cs. if cs = [''etc'', ''new''] then Some Dir else link_fs cs)
   in resolve_path link_fs source = source
      \<and> is_path_allowed default_paths link_fs (resolve_path link_fs source) ''alice''
      \<and> resolve_path later source = ''/etc/new''
      \<and> \<not> is_path_allowed default_paths later (resolve_path later source) ''alice''"
  by code_simp

section \<open>Bytes that resolution keeps out\<close>

definition links_free :: "char \<Rightarrow> fsys \<Rightarrow> bool" where
  "links_free ch fs \<longleftrightarrow> (\<forall>cs t. fs cs = Some (Symlink t) \<longrightarrow> ch \<notin> set t)"

lemma walk_all:
  assumes "walk fs n dest cs = Inr res" "list_all P dest" "list_all P cs"
    and "\<And>ds t. fs ds = Some (Symlink t) \<Longrightarrow> list_all P (split_on CHR ''/'' t)"
  shows "list_all P res"
  using assms
proof (induction fs n dest cs rule: walk.induct)
  case (2 fs n dest c cs)
  show ?case
  proof (cases "c = [] \<or> c = ''.''")
    case True
    then show ?thesis using "2.IH"(1) "2.prems" by simp
  next
    case c1: False
    show ?thesis
    proof (cases "c = ''..''")
      case True
      moreover have "list_all P (tl dest)" using "2.prems"(2) by (cases dest) simp_all
      ultimately show ?thesis using "2.IH"(2) "2.prems" by simp
    next
      case c2: False
      show ?thesis
      proof (cases "fs (rev (c # dest))")
        case None
        then show ?thesis using c1 c2 "2.prems"(1) by simp
      next
        case (Some node)
        show ?thesis
        proof (cases node)
          case Dir
          then show ?thesis using "2.IH"(3) [OF c1 c2 Some Dir] c1 c2 "2.prems" Some by simp
        next
          case File
          then have "res = rev (c # dest)"
            using c1 c2 "2.prems"(1) Some by (simp split: if_splits)
          then show ?thesis using "2.prems" by (simp add: list_all_iff)
        next
          case (Symlink t)
          have n: "\<not> 255 < Suc n" using c1 c2 "2.prems"(1) Some Symlink by (simp split: if_splits)
          have "list_all P (split_on CHR ''/'' t)" using Some Symlink "2.prems"(4) by simp
          then show ?thesis
            using "2.IH"(5) [OF c1 c2 Some Symlink n] c1 c2 n "2.prems" Some Symlink
            by (cases "prefix ''/'' t") simp_all
        qed
      qed
    qed
  qed
qed (auto simp: list_all_iff)

lemma clean_comps_all:
  "list_all P out \<Longrightarrow> list_all P cs \<Longrightarrow> P ''..'' \<Longrightarrow> list_all P (clean_comps r out cs)"
proof (induction r out cs rule: clean_comps.induct)
  case (2 r out c cs)
  show ?case
  proof (cases "c = [] \<or> c = ''.''")
    case True
    then show ?thesis using 2 by simp
  next
    case c1: False
    show ?thesis
    proof (cases "c = ''..''")
      case c2: True
      show ?thesis
        using "2.IH"(2) [OF c1 c2] "2.IH"(3) [OF c1 c2] "2.prems" c1 c2
        by (cases out; cases r; cases "hd out = ''..''") simp_all
    next
      case False
      then show ?thesis using "2.IH"(4) [OF c1] "2.prems" c1 by simp
    qed
  qed
qed simp

lemma set_join_with: "set (join_with sep ws) \<subseteq> insert sep (\<Union> (set ` set ws))"
  by (induction sep ws rule: join_with.induct) auto

lemma abs_path_free:
  "list_all (\<lambda>c. ch \<notin> set c) cs \<Longrightarrow> ch \<noteq> CHR ''/'' \<Longrightarrow> ch \<notin> set (abs_path cs)"
  using set_join_with [of "CHR ''/''" cs] by (auto simp: abs_path_def list_all_iff)

lemma split_free: "ch \<notin> set s \<Longrightarrow> list_all (\<lambda>c. ch \<notin> set c) (split_on sep s)"
  using set_split_on by (auto simp: list_all_iff)

lemma resolve_path_free:
  assumes "links_free ch fs" "prefix ''/'' s" "ch \<notin> set s" "ch \<noteq> CHR ''/''" "ch \<noteq> CHR ''.''"
  shows "ch \<notin> set (resolve_path fs s)"
proof -
  let ?P = "\<lambda>c. ch \<notin> set c"
  let ?cs = "clean_comps True [] (split_on CHR ''/'' s)"
  have cl: "clean s = abs_path ?cs"
    using assms(2) by (auto simp: clean_def Let_def)
  have "list_all ?P ?cs"
    by (rule clean_comps_all) (simp_all add: assms split_free)
  then have free: "ch \<notin> set (clean s)"
    unfolding cl by (rule abs_path_free) (rule assms)
  show ?thesis
  proof (cases "walk fs 0 [] (split_on CHR ''/'' (clean s))")
    case (Inl e)
    then show ?thesis using free by (simp add: resolve_path_def eval_symlinks_def Let_def)
  next
    case (Inr ds)
    have "list_all ?P ds"
      by (rule walk_all [OF Inr])
        (use assms(1) in \<open>auto simp: links_free_def intro: split_free simp: split_free [OF free]\<close>)
    then show ?thesis
      using Inr abs_path_free assms(4) by (simp add: resolve_path_def eval_symlinks_def Let_def)
  qed
qed

section \<open>The contract of the path policy\<close>

text \<open>
  What the create validation needs of \<open>ResolvePath\<close> and \<open>IsPathAllowed\<close>: the normal form of
  an absolute source is a clean absolute path and is its own normal form.
\<close>

definition validated_source ::
  "(gostring \<Rightarrow> gostring) \<Rightarrow> (gostring \<Rightarrow> gostring \<Rightarrow> bool) \<Rightarrow> gostring \<Rightarrow> gostring \<Rightarrow> bool" where
  "validated_source resolve allowed user s \<longleftrightarrow>
     prefix ''/'' s \<and> resolve s = s \<and> allowed s user"

locale path_policy =
  fixes resolve :: "gostring \<Rightarrow> gostring"
    and allowed :: "gostring \<Rightarrow> gostring \<Rightarrow> bool"
  assumes resolve_clean: "prefix ''/'' s \<Longrightarrow> \<exists>cs. plain_comps cs \<and> resolve s = abs_path cs"
    and resolve_twice: "prefix ''/'' s \<Longrightarrow> resolve (resolve s) = resolve s"
begin

lemma resolve_abs: "prefix ''/'' s \<Longrightarrow> prefix ''/'' (resolve s)"
  using resolve_clean [of s] by (auto simp: abs_path_def)

lemma validated_resolve:
  "prefix ''/'' s \<Longrightarrow> allowed (resolve s) user \<Longrightarrow> validated_source resolve allowed user (resolve s)"
  by (simp add: validated_source_def resolve_abs resolve_twice)

end

interpretation host_paths: path_policy "resolve_path fs" "is_path_allowed cfg fs" for cfg fs
proof
  show "\<exists>cs. plain_comps cs \<and> resolve_path fs s = abs_path cs" if "prefix ''/'' s" for s
    using resolve_path_abs [OF that] by metis
qed (rule resolve_path_twice)

end
