(* ===== verification/Regex.thy ===== *)
theory Regex
  imports Prelude
begin

text \<open>
  Go's \<open>regexp\<close> package as far as the endpoint allowlist uses it: expressions built from
  literals, character classes, concatenation, alternation, \<open>?\<close>, \<open>+\<close> and \<open>*\<close>, every one
  of them anchored by \<open>^\<close> and \<open>$\<close>, so that \<open>MatchString\<close> is membership of the whole path
  in the expression's language.  Matching is by derivatives and is executable; \<open>lang\<close> is
  the meaning of an expression, and \<open>re_match_lang\<close> says that the two agree.

  The expressions work on bytes.  Go matches code points, but every class used here is
  either a set of ASCII characters or the dot, and the dot excludes the line feed only; a
  sequence of code points without a line feed is a sequence of bytes without one (an
  invalid byte is read as U+FFFD, which the dot accepts).
\<close>

section \<open>Expressions and their languages\<close>

datatype rexp =
    RNone
  | REps
  | RSet "char \<Rightarrow> bool"
  | RSeq rexp rexp
  | RAlt rexp rexp
  | RStar rexp

inductive_set star_of :: "gostring set \<Rightarrow> gostring set" for L where
  star_nil: "[] \<in> star_of L"
| star_step: "u \<in> L \<Longrightarrow> v \<in> star_of L \<Longrightarrow> u @ v \<in> star_of L"

primrec lang :: "rexp \<Rightarrow> gostring set" where
  "lang RNone = {}"
| "lang REps = {[]}"
| "lang (RSet P) = {[c] | c. P c}"
| "lang (RSeq r s) = {u @ v | u v. u \<in> lang r \<and> v \<in> lang s}"
| "lang (RAlt r s) = lang r \<union> lang s"
| "lang (RStar r) = star_of (lang r)"

section \<open>The matcher\<close>

primrec nullable :: "rexp \<Rightarrow> bool" where
  "nullable RNone = False"
| "nullable REps = True"
| "nullable (RSet P) = False"
| "nullable (RSeq r s) = (nullable r \<and> nullable s)"
| "nullable (RAlt r s) = (nullable r \<or> nullable s)"
| "nullable (RStar r) = True"

fun mk_seq :: "rexp \<Rightarrow> rexp \<Rightarrow> rexp" where
  "mk_seq RNone s = RNone"
| "mk_seq REps s = s"
| "mk_seq r s = RSeq r s"

fun mk_alt :: "rexp \<Rightarrow> rexp \<Rightarrow> rexp" where
  "mk_alt RNone s = s"
| "mk_alt r RNone = r"
| "mk_alt r s = RAlt r s"

primrec deriv :: "char \<Rightarrow> rexp \<Rightarrow> rexp" where
  "deriv c RNone = RNone"
| "deriv c REps = RNone"
| "deriv c (RSet P) = (if P c then REps else RNone)"
| "deriv c (RSeq r s) =
     (if nullable r then mk_alt (mk_seq (deriv c r) s) (deriv c s)
      else mk_seq (deriv c r) s)"
| "deriv c (RAlt r s) = mk_alt (deriv c r) (deriv c s)"
| "deriv c (RStar r) = mk_seq (deriv c r) (RStar r)"

fun re_match :: "rexp \<Rightarrow> gostring \<Rightarrow> bool" where
  "re_match r [] = nullable r"
| "re_match r (c # s) = re_match (deriv c r) s"

lemma lang_mk_seq [simp]: "lang (mk_seq r s) = lang (RSeq r s)"
  by (induction r s rule: mk_seq.induct) auto

lemma lang_mk_alt [simp]: "lang (mk_alt r s) = lang (RAlt r s)"
  by (induction r s rule: mk_alt.induct) auto

lemma nullable_iff: "nullable r \<longleftrightarrow> [] \<in> lang r"
  by (induction r) (auto intro: star_nil)

lemma star_of_Cons:
  "c # s \<in> star_of L \<longleftrightarrow> (\<exists>u v. s = u @ v \<and> c # u \<in> L \<and> v \<in> star_of L)" (is "?l = ?r")
proof
  have "w \<in> star_of L \<Longrightarrow> w = c # s \<Longrightarrow> ?r" for w
  proof (induction rule: star_of.induct)
    case star_nil
    then show ?case by simp
  next
    case (star_step u v)
    then show ?case by (cases u) auto
  qed
  then show "?l \<Longrightarrow> ?r" by blast
  show "?r \<Longrightarrow> ?l" using star_step by fastforce
qed

lemma lang_deriv: "lang (deriv c r) = {s. c # s \<in> lang r}"
proof (induction r)
  case (RSeq r1 r2)
  then show ?case by (auto simp: nullable_iff Cons_eq_append_conv)
next
  case (RStar r)
  then show ?case by (auto simp: star_of_Cons)
qed auto

theorem re_match_lang [simp]: "re_match r s \<longleftrightarrow> s \<in> lang r"
  by (induction s arbitrary: r) (auto simp: nullable_iff lang_deriv)

declare re_match_lang [simp del]

section \<open>Derived forms\<close>

text \<open>A literal, \<open>r?\<close>, \<open>r+\<close>, a concatenation and an alternation of several parts.\<close>

primrec lit :: "gostring \<Rightarrow> rexp" where
  "lit [] = REps"
| "lit (c # s) = mk_seq (RSet (\<lambda>x. x = c)) (lit s)"

definition opt :: "rexp \<Rightarrow> rexp" where
  "opt r = RAlt REps r"

definition plus :: "rexp \<Rightarrow> rexp" where
  "plus r = RSeq r (RStar r)"

primrec seqs :: "rexp list \<Rightarrow> rexp" where
  "seqs [] = REps"
| "seqs (r # rs) = RSeq r (seqs rs)"

primrec alts :: "rexp list \<Rightarrow> rexp" where
  "alts [] = RNone"
| "alts (r # rs) = RAlt r (alts rs)"

lemma lang_lit [simp]: "lang (lit w) = {w}"
  by (induction w) auto

lemma lang_opt [simp]: "lang (opt r) = insert [] (lang r)"
  by (simp add: opt_def)

lemma lang_alts_lit [simp]: "lang (alts (map lit ws)) = set ws"
  by (induction ws) auto

lemma star_of_chars: "star_of {[c] | c. P c} = {s. \<forall>c \<in> set s. P c}"
proof (intro set_eqI iffI)
  fix s assume "s \<in> star_of {[c] | c. P c}"
  then have "\<forall>c \<in> set s. P c" by induction auto
  then show "s \<in> {s. \<forall>c \<in> set s. P c}" by simp
next
  fix s assume "s \<in> {s. \<forall>c \<in> set s. P c}"
  then have "\<forall>c \<in> set s. P c" by simp
  then show "s \<in> star_of {[c] | c. P c}"
    by (induction s) (auto intro: star_nil simp: star_of_Cons)
qed

lemma lang_star_set [simp]: "lang (RStar (RSet P)) = {s. \<forall>c \<in> set s. P c}"
  by (simp add: star_of_chars)

lemma lang_plus_set [simp]: "lang (plus (RSet P)) = {s. s \<noteq> [] \<and> (\<forall>c \<in> set s. P c)}"
proof (intro set_eqI iffI)
  fix s assume "s \<in> lang (plus (RSet P))"
  then show "s \<in> {s. s \<noteq> [] \<and> (\<forall>c \<in> set s. P c)}"
    by (auto simp: plus_def star_of_chars)
next
  fix s assume "s \<in> {s. s \<noteq> [] \<and> (\<forall>c \<in> set s. P c)}"
  then obtain c v where s: "s = [c] @ v" "P c" "\<forall>x \<in> set v. P x"
    by (cases s) auto
  then have "[c] \<in> lang (RSet P)" "v \<in> lang (RStar (RSet P))"
    by (simp_all add: star_of_chars)
  with s(1) show "s \<in> lang (plus (RSet P))"
    unfolding plus_def lang.simps(4) by blast
qed

declare lang.simps(6) [simp del]

text \<open>Membership in a concatenation, with the splitting point made explicit.\<close>

lemma lang_seq_iff: "w \<in> lang (RSeq r s) \<longleftrightarrow> (\<exists>u \<in> lang r. \<exists>v \<in> lang s. w = u @ v)"
  by auto

lemma lang_lit_seq [simp]: "w \<in> lang (RSeq (lit x) s) \<longleftrightarrow> (\<exists>v \<in> lang s. w = x @ v)"
  by auto

declare lang.simps(4) [simp del] lit.simps [simp del]

section \<open>Character classes\<close>

definition in_range :: "char \<Rightarrow> char \<Rightarrow> char \<Rightarrow> bool" where
  "in_range lo hi c \<longleftrightarrow> (of_char lo :: nat) \<le> of_char c \<and> (of_char c :: nat) \<le> of_char hi"

lemma in_range_code [code]:
  "in_range lo hi c \<longleftrightarrow> bits_le (char_bits lo) (char_bits c) \<and> bits_le (char_bits c) (char_bits hi)"
  by (simp add: in_range_def char_le_bits)

definition is_digit :: "char \<Rightarrow> bool" where
  "is_digit c \<longleftrightarrow> in_range CHR ''0'' CHR ''9'' c"

definition is_alnum :: "char \<Rightarrow> bool" where
  "is_alnum c \<longleftrightarrow> in_range CHR ''a'' CHR ''z'' c \<or> in_range CHR ''A'' CHR ''Z'' c \<or> is_digit c"

text \<open>\<open>[\d.]\<close>, \<open>[a-zA-Z0-9_.-]\<close>, \<open>[a-zA-Z0-9_./:@%-]\<close> and the dot.\<close>

definition ver_char :: "char \<Rightarrow> bool" where
  "ver_char c \<longleftrightarrow> is_digit c \<or> c = CHR ''.''"

definition name_char :: "char \<Rightarrow> bool" where
  "name_char c \<longleftrightarrow> is_alnum c \<or> c = CHR ''_'' \<or> c = CHR ''.'' \<or> c = CHR ''-''"

definition image_char :: "char \<Rightarrow> bool" where
  "image_char c \<longleftrightarrow> is_alnum c \<or> c \<in> set ''_./:@%-''"

definition any_char :: "char \<Rightarrow> bool" where
  "any_char c \<longleftrightarrow> c \<noteq> newline"

lemmas char_class_defs =
  in_range_def is_digit_def is_alnum_def ver_char_def name_char_def image_char_def any_char_def

end
