(* ===== verification/Number.thy ===== *)
theory Number
  imports Complex_Main Regex
begin

text \<open>
  JSON numbers: the decimal a literal denotes, its rounding to \<open>float64\<close> (\<open>strconv.ParseFloat\<close>:
  nearest, ties to even, a range error on overflow), and the shortest decimal that rounds back
  to a given \<open>float64\<close>, which is what \<open>json.Marshal\<close> prints.
\<close>

section \<open>Rounding\<close>

text \<open>A finite \<open>float64\<close>: sign, integer significand, binary exponent.\<close>

datatype float64 = F64 (f_neg: bool) (f_mant: int) (f_exp: int)

definition f_value :: "int \<Rightarrow> int \<Rightarrow> rat" where
  "f_value m e = of_int m * 2 powi e"

text \<open>The number of digits of \<open>n\<close> in base \<open>b\<close>.\<close>

function digit_count :: "int \<Rightarrow> int \<Rightarrow> int" where
  "digit_count b n = (if n < 1 \<or> b < 2 then 0 else 1 + digit_count b (n div b))"
  by pat_completeness auto
termination
  by (relation "measure (\<lambda>(b, n). nat n)") (auto simp: int_div_less_self)

declare digit_count.simps [simp del]

definition log2_floor :: "rat \<Rightarrow> int" where
  "log2_floor q =
     (case quotient_of q of
        (n, d) \<Rightarrow> let k = digit_count 2 n - digit_count 2 d
                  in if q < 2 powi k then k - 1 else k)"

definition round_half_even :: "rat \<Rightarrow> int" where
  "round_half_even x =
     (let f = \<lfloor>x\<rfloor>; r = x - of_int f
      in if r < 1/2 then f else if 1/2 < r then f + 1 else if even f then f else f + 1)"

definition round_float :: "rat \<Rightarrow> (int \<times> int) option" where
  "round_float q =
     (if q = 0 then Some (0, -1074)
      else let e = max (log2_floor q - 52) (-1074);
               m = round_half_even (q / 2 powi e);
               (m', e') = (if m = 2 ^ 53 then (2 ^ 52, e + 1) else (m, e))
           in if e' > 971 then None else Some (m', e'))"

definition canonical_float :: "int \<Rightarrow> int \<Rightarrow> bool" where
  "canonical_float m e \<longleftrightarrow>
     0 \<le> m \<and> m < 2 ^ 53 \<and> -1074 \<le> e \<and> e \<le> 971 \<and> (2 ^ 52 \<le> m \<or> e = -1074)"

lemma digit_count2:
  assumes "0 < n"
  shows "(2::rat) powi (digit_count 2 n - 1) \<le> of_int n" "of_int n < (2::rat) powi digit_count 2 n"
proof -
  have "0 < digit_count 2 n \<and> (2::int) ^ nat (digit_count 2 n - 1) \<le> n
      \<and> n < 2 ^ nat (digit_count 2 n)"
    using assms
  proof (induction "2::int" n rule: digit_count.induct)
    case (1 n)
    show ?case
    proof (cases "n = 1")
      case True
      have "digit_count 2 1 = 1" by (simp add: digit_count.simps)
      then show ?thesis using True by simp
    next
      case False
      let ?d = "digit_count 2 (n div 2)"
      have d: "digit_count 2 n = 1 + ?d"
        using \<open>0 < n\<close> by (subst digit_count.simps) simp
      have IH: "0 < ?d" "(2::int) ^ nat (?d - 1) \<le> n div 2" "n div 2 < 2 ^ nat ?d"
        using 1 False by auto
      have "nat (1 + ?d) = Suc (nat ?d)" "nat ?d = Suc (nat (?d - 1))"
        using IH(1) by simp_all
      moreover have "2 * (n div 2) \<le> n" "n < 2 * (n div 2) + 2" by linarith+
      ultimately show ?thesis using IH unfolding d by simp
    qed
  qed
  then have k: "0 < digit_count 2 n" and "(2::int) ^ nat (digit_count 2 n - 1) \<le> n"
    "n < 2 ^ nat (digit_count 2 n)" by auto
  then have "(of_int (2 ^ nat (digit_count 2 n - 1)) :: rat) \<le> of_int n"
    "(of_int n :: rat) < of_int (2 ^ nat (digit_count 2 n))"
    by (simp_all only: of_int_le_iff of_int_less_iff)
  then show "(2::rat) powi (digit_count 2 n - 1) \<le> of_int n"
    "of_int n < (2::rat) powi digit_count 2 n"
    using k by (simp_all add: power_int_def)
qed

lemma log2_floor_bounds:
  assumes "0 < q"
  shows "2 powi log2_floor q \<le> q" "q < 2 powi (log2_floor q + 1)"
proof -
  obtain n d where nd: "quotient_of q = (n, d)" by fastforce
  have d0: "0 < d" using quotient_of_denom_pos [OF nd] .
  have q: "q = of_int n / of_int d" using quotient_of_div [OF nd] .
  have n0: "0 < n" using assms d0 q by (simp add: zero_less_divide_iff)
  define a where "a = digit_count 2 n"
  define b where "b = digit_count 2 d"
  have a: "(2::rat) powi (a - 1) \<le> of_int n" "of_int n < (2::rat) powi a"
    using digit_count2 [OF n0] by (simp_all add: a_def)
  have b: "(2::rat) powi (b - 1) \<le> of_int d" "of_int d < (2::rat) powi b"
    using digit_count2 [OF d0] by (simp_all add: b_def)
  have d: "0 < (of_int d :: rat)" using d0 by simp
  have "(2::rat) powi (a - 1 - b) * of_int d \<le> 2 powi (a - 1 - b) * 2 powi b"
    using b(2) by (intro mult_left_mono) simp_all
  also have "\<dots> = 2 powi (a - 1)" by (simp add: power_int_add [symmetric])
  also note a(1)
  finally have lo: "2 powi (a - b - 1) \<le> q"
    using d by (subst q) (simp add: pos_le_divide_eq algebra_simps)
  have "of_int n < (2::rat) powi a" by (rule a(2))
  also have "\<dots> = 2 powi (a - b + 1) * 2 powi (b - 1)" by (simp add: power_int_add [symmetric])
  also have "\<dots> \<le> 2 powi (a - b + 1) * of_int d"
    using b(1) by (intro mult_left_mono) simp_all
  finally have hi: "q < 2 powi (a - b + 1)"
    using d by (subst q) (simp add: pos_divide_less_eq)
  have "log2_floor q = (if q < 2 powi (a - b) then a - b - 1 else a - b)"
    by (simp add: log2_floor_def nd a_def b_def Let_def)
  then show "2 powi log2_floor q \<le> q" "q < 2 powi (log2_floor q + 1)"
    using lo hi by (simp_all split: if_splits)
qed

lemma log2_floor_eq:
  assumes "2 powi k \<le> q" "q < 2 powi (k + 1)"
  shows "log2_floor q = k"
proof -
  have "0 < (2::rat) powi k" by simp
  then have q: "0 < q" using assms(1) by linarith
  note b = log2_floor_bounds [OF q]
  have "(2::rat) powi k < 2 powi (log2_floor q + 1)" "(2::rat) powi log2_floor q < 2 powi (k + 1)"
    using assms b by linarith+
  then have "k < log2_floor q + 1" "log2_floor q < k + 1"
    by (smt (verit) power_int_increasing one_le_numeral linorder_not_le)+
  then show ?thesis by simp
qed

lemma round_half_even_int [simp]: "round_half_even (of_int m) = m"
  by (simp add: round_half_even_def)

lemma round_half_even_bounds:
  "of_int a \<le> x \<Longrightarrow> a \<le> round_half_even x" "x < of_int b \<Longrightarrow> round_half_even x \<le> b"
proof -
  show "a \<le> round_half_even x" if "of_int a \<le> x"
    using that le_floor_iff [of a x] by (simp add: round_half_even_def Let_def)
  show "round_half_even x \<le> b" if "x < of_int b"
    using that floor_less_iff [of x b] by (simp add: round_half_even_def Let_def)
qed

lemma round_float_canonical:
  assumes "0 \<le> q" "round_float q = Some (m, e)"
  shows "canonical_float m e"
proof (cases "q = 0")
  case False
  then have q: "0 < q" using assms by simp
  define e0 where "e0 = max (log2_floor q - 52) (-1074)"
  define m0 where "m0 = round_half_even (q / 2 powi e0)"
  have "q < 2 powi (e0 + 53)"
    using log2_floor_bounds(2) [OF q] power_int_increasing [of "log2_floor q + 1" "e0 + 53" "2::rat"]
    unfolding e0_def by linarith
  then have hi: "q / 2 powi e0 < of_int (2 ^ 53)"
    by (simp add: pos_divide_less_eq power_int_add mult.commute)
  have m53: "m0 \<le> 2 ^ 53"
    unfolding m0_def by (rule round_half_even_bounds(2) [OF hi])
  have m52: "2 ^ 52 \<le> m0" if "e0 \<noteq> -1074"
  proof -
    have "e0 + 52 = log2_floor q" using that by (auto simp: e0_def max_def split: if_splits)
    then have "2 powi (e0 + 52) \<le> q" using log2_floor_bounds(1) [OF q] by simp
    then have "of_int (2 ^ 52) \<le> q / 2 powi e0"
      by (simp add: pos_le_divide_eq power_int_add mult.commute)
    then show ?thesis unfolding m0_def by (intro round_half_even_bounds(1)) simp_all
  qed
  have "-1074 \<le> e0" "0 \<le> m0"
    using q round_half_even_bounds(1) [of 0 "q / 2 powi e0"] by (simp_all add: e0_def m0_def)
  then show ?thesis
    using assms(2) False m53 m52
    by (auto simp: round_float_def canonical_float_def Let_def simp flip: e0_def m0_def
        split: if_splits)
qed (use assms in \<open>simp add: round_float_def canonical_float_def\<close>)

lemma round_float_value:
  assumes "canonical_float m e"
  shows "round_float (f_value m e) = Some (m, e)"
proof (cases "m = 0")
  case True
  then show ?thesis using assms by (simp add: round_float_def f_value_def canonical_float_def)
next
  case False
  then have q: "0 < f_value m e" using assms by (simp add: f_value_def canonical_float_def)
  have m: "m < 2 ^ 53" "-1074 \<le> e" "e \<le> 971" "2 ^ 52 \<le> m \<or> e = -1074"
    using assms by (auto simp: canonical_float_def)
  have "(of_int m :: rat) < of_int (2 ^ 53)" using m(1) by (simp only: of_int_less_iff)
  then have hi: "f_value m e < 2 powi (e + 53)"
    by (simp add: f_value_def power_int_add mult.commute)
  have le: "log2_floor (f_value m e) \<le> e + 52"
  proof (rule ccontr)
    assume "\<not> ?thesis"
    then have "(2::rat) powi (e + 53) \<le> 2 powi log2_floor (f_value m e)"
      by (intro power_int_increasing) simp_all
    then show False using hi log2_floor_bounds(1) [OF q] by linarith
  qed
  have e0: "max (log2_floor (f_value m e) - 52) (-1074) = e"
  proof (cases "e = -1074")
    case False
    then have "(of_int (2 ^ 52) :: rat) \<le> of_int m" using m(4) by (simp only: of_int_le_iff) simp
    then have "2 powi (e + 52) \<le> f_value m e"
      by (simp add: f_value_def power_int_add mult.commute)
    then have "log2_floor (f_value m e) = e + 52"
      using hi by (intro log2_floor_eq) (simp_all add: add.assoc)
    then show ?thesis using m(2) by simp
  qed (use le in simp)
  have "f_value m e / 2 powi e = of_int m" by (simp add: f_value_def)
  then show ?thesis
    using q m unfolding round_float_def e0 by simp
qed

section \<open>The shortest decimal\<close>

definition dec_value :: "int \<Rightarrow> int \<Rightarrow> rat" where
  "dec_value d e = of_int d * 10 powi e"

function strip_zeros :: "int \<Rightarrow> int \<Rightarrow> int \<times> int" where
  "strip_zeros d e = (if 0 < d \<and> d mod 10 = 0 then strip_zeros (d div 10) (e + 1) else (d, e))"
  by pat_completeness auto
termination by (relation "measure (\<lambda>(d, e). nat d)") auto

declare strip_zeros.simps [simp del]

text \<open>The number of digits before the decimal point (negative for leading zeros after it).\<close>

definition decimal_point :: "rat \<Rightarrow> int" where
  "decimal_point q =
     (if 1 \<le> q then digit_count 10 \<lfloor>q\<rfloor>
      else let k = 1 - digit_count 10 \<lfloor>1 / q\<rfloor>
           in if q < 10 powi k then k else k + 1)"

text \<open>The \<open>n\<close>-digit decimal that rounds to the float, the nearer of two.\<close>

definition pick_digits :: "int \<times> int \<Rightarrow> rat \<Rightarrow> int \<Rightarrow> int \<Rightarrow> (int \<times> int) option" where
  "pick_digits f q k n =
     (let e = k - n;
          x = q / 10 powi e;
          lo = \<lfloor>x\<rfloor>;
          ok = (\<lambda>d. round_float (dec_value d e) = Some f)
      in if ok lo \<and> ok (lo + 1) then Some (round_half_even x, e)
         else if ok lo then Some (lo, e)
         else if ok (lo + 1) then Some (lo + 1, e)
         else None)"

fun first_some :: "('a \<Rightarrow> 'b option) \<Rightarrow> 'a list \<Rightarrow> 'b option" where
  "first_some f [] = None"
| "first_some f (x # xs) = (case f x of Some y \<Rightarrow> Some y | None \<Rightarrow> first_some f xs)"

text \<open>Seventeen digits always suffice; the exact expansion closes the definition.\<close>

definition shortest :: "int \<Rightarrow> int \<Rightarrow> int \<times> int" where
  "shortest m e =
     (let q = f_value m e
      in case first_some (pick_digits (m, e) q (decimal_point q)) [1..17] of
           Some (d, x) \<Rightarrow> strip_zeros d x
         | None \<Rightarrow> if 0 \<le> e then (m * 2 ^ nat e, 0) else (m * 5 ^ nat (- e), e))"

lemma strip_zeros_value: "strip_zeros d e = (d', e') \<Longrightarrow> dec_value d' e' = dec_value d e"
proof (induction d e rule: strip_zeros.induct)
  case (1 d e)
  show ?case
  proof (cases "0 < d \<and> d mod 10 = 0")
    case True
    then have "dec_value d' e' = dec_value (d div 10) (e + 1)"
      using 1 strip_zeros.simps [of d e] by simp
    also have "\<dots> = of_int (10 * (d div 10)) * 10 powi e"
      by (simp add: dec_value_def power_int_add)
    also have "10 * (d div 10) = d" using True by auto
    finally show ?thesis by (simp add: dec_value_def)
  next
    case False
    then have "strip_zeros d e = (d, e)" by (subst strip_zeros.simps) (simp only: if_False)
    then show ?thesis using 1(2) by simp
  qed
qed

lemma first_some_Some: "first_some f xs = Some y \<Longrightarrow> \<exists>x \<in> set xs. f x = Some y"
  by (induction xs) (auto split: option.splits)

lemma round_half_even_cases: "round_half_even x = \<lfloor>x\<rfloor> \<or> round_half_even x = \<lfloor>x\<rfloor> + 1"
  by (simp add: round_half_even_def Let_def)

lemma pick_digits_round:
  assumes "pick_digits f q k n = Some (d, e)"
  shows "round_float (dec_value d e) = Some f"
  using assms round_half_even_cases [of "q / 10 powi (k - n)"]
  by (auto simp: pick_digits_def Let_def split: if_splits)

lemma exact_value: "e < 0 \<Longrightarrow> dec_value (m * 5 ^ nat (- e)) e = f_value m e"
proof -
  assume "e < 0"
  then obtain n where e: "e = - int n" by (metis neg_int_cases)
  have "(5::rat) ^ n / 10 ^ n = 1 / 2 ^ n"
    by (simp add: power_divide [symmetric] field_simps flip: power_mult_distrib)
  then show ?thesis
    unfolding e by (simp add: dec_value_def f_value_def power_int_minus field_simps)
qed

lemma shortest_round:
  assumes "canonical_float m e" "shortest m e = (d, x)"
  shows "round_float (dec_value d x) = Some (m, e)"
proof (cases "first_some (pick_digits (m, e) (f_value m e) (decimal_point (f_value m e))) [1..17]")
  case None
  then have "dec_value d x = f_value m e"
    using assms(2) exact_value [of e m]
    by (auto simp: shortest_def Let_def dec_value_def f_value_def power_int_def split: if_splits)
  then show ?thesis using round_float_value [OF assms(1)] by simp
next
  case (Some dx)
  obtain d' x' where dx: "dx = (d', x')" by fastforce
  obtain n where "pick_digits (m, e) (f_value m e) (decimal_point (f_value m e)) n = Some (d', x')"
    using first_some_Some [OF Some [unfolded dx]] by blast
  then have "round_float (dec_value d' x') = Some (m, e)" by (rule pick_digits_round)
  moreover have "dec_value d x = dec_value d' x'"
    using assms(2) Some dx by (intro strip_zeros_value) (simp add: shortest_def Let_def)
  ultimately show ?thesis by simp
qed

section \<open>Literals\<close>

text \<open>The exponent of a literal stops growing at 10000, as in \<open>strconv.readFloat\<close>.\<close>

definition digit_val :: "char \<Rightarrow> int" where
  "digit_val c = int (of_char c) - 48"

definition digits_val :: "gostring \<Rightarrow> int" where
  "digits_val ds = foldl (\<lambda>n c. 10 * n + digit_val c) 0 ds"

definition exp_val :: "gostring \<Rightarrow> int" where
  "exp_val ds = foldl (\<lambda>n c. if n < 10000 then 10 * n + digit_val c else n) 0 ds"

text \<open>The number grammar: sign, integer part, optional fraction, optional exponent.\<close>

definition span_digits :: "gostring \<Rightarrow> gostring \<times> gostring" where
  "span_digits s = (takeWhile is_digit s, dropWhile is_digit s)"

definition lex_int :: "gostring \<Rightarrow> (gostring \<times> gostring) option" where
  "lex_int s =
     (case s of
        [] \<Rightarrow> None
      | c # r \<Rightarrow> if c = CHR ''0'' then Some ([c], r)
                 else if is_digit c then Some (span_digits s) else None)"

definition lex_frac :: "gostring \<Rightarrow> (gostring \<times> gostring) option" where
  "lex_frac s =
     (case s of
        [] \<Rightarrow> Some ([], s)
      | c # r \<Rightarrow> if c = CHR ''.''
                 then (case span_digits r of (ds, t) \<Rightarrow> if ds = [] then None else Some (ds, t))
                 else Some ([], s))"

definition lex_exp :: "gostring \<Rightarrow> (int \<times> gostring) option" where
  "lex_exp s =
     (case s of
        [] \<Rightarrow> Some (0, s)
      | c # r \<Rightarrow>
          if c = CHR ''e'' \<or> c = CHR ''E'' then
            (let neg = (r \<noteq> [] \<and> hd r = CHR ''-'');
                 r' = (if r \<noteq> [] \<and> (hd r = CHR ''-'' \<or> hd r = CHR ''+'') then tl r else r)
             in case span_digits r' of
                  (ds, t) \<Rightarrow>
                    if ds = [] then None
                    else Some (if neg then - exp_val ds else exp_val ds, t))
          else Some (0, s))"

definition lex_number :: "gostring \<Rightarrow> ((bool \<times> int \<times> int) \<times> gostring) option" where
  "lex_number s =
     (let neg = (s \<noteq> [] \<and> hd s = CHR ''-''); s1 = (if neg then tl s else s)
      in case lex_int s1 of
           None \<Rightarrow> None
         | Some (i, s2) \<Rightarrow>
             (case lex_frac s2 of
                None \<Rightarrow> None
              | Some (f, s3) \<Rightarrow>
                  (case lex_exp s3 of
                     None \<Rightarrow> None
                   | Some (x, s4) \<Rightarrow>
                       Some ((neg, digits_val (i @ f), x - int (length f)), s4))))"

text \<open>\<open>convertNumber\<close>: a literal out of range is an error.\<close>

definition parse_number :: "gostring \<Rightarrow> (float64 \<times> gostring) option" where
  "parse_number s =
     (case lex_number s of
        None \<Rightarrow> None
      | Some ((neg, d, x), t) \<Rightarrow>
          (case round_float (dec_value d x) of
             None \<Rightarrow> None
           | Some (m, e) \<Rightarrow> Some (F64 neg m e, t)))"

text \<open>\<open>floatEncoder\<close>: plain notation between \<open>1e-6\<close> and \<open>1e21\<close>, exponents outside, with no
  leading zero in the exponent.\<close>

definition exponent_form :: "rat \<Rightarrow> bool" where
  "exponent_form q \<longleftrightarrow> q < f_value 4722366482869645 (-72) \<or> 10 ^ 21 \<le> q"

definition plain_digits :: "gostring \<Rightarrow> int \<Rightarrow> gostring" where
  "plain_digits ds e =
     (let n = int (length ds); p = n + e
      in if p \<le> 0 then ''0.'' @ replicate (nat (- p)) CHR ''0'' @ ds
         else if 0 \<le> e then ds @ replicate (nat e) CHR ''0''
         else take (nat p) ds @ ''.'' @ drop (nat p) ds)"

definition exponent_digits :: "gostring \<Rightarrow> int \<Rightarrow> gostring" where
  "exponent_digits ds e =
     (let x = int (length ds) + e - 1
      in [hd ds] @ (if tl ds = [] then [] else ''.'' @ tl ds)
         @ ''e'' @ (if x < 0 then ''-'' else ''+'') @ itoa \<bar>x\<bar>)"

definition format_float :: "float64 \<Rightarrow> gostring" where
  "format_float f =
     (case f of
        F64 neg m e \<Rightarrow>
          (if neg then ''-'' else []) @
          (if m = 0 then ''0''
           else case shortest m e of
                  (d, x) \<Rightarrow>
                    if exponent_form (f_value m e) then exponent_digits (itoa d) x
                    else plain_digits (itoa d) x))"

section \<open>Printing and reading back\<close>

definition ends_number :: "gostring \<Rightarrow> bool" where
  "ends_number rest \<longleftrightarrow>
     (case rest of
        [] \<Rightarrow> True
      | c # _ \<Rightarrow> \<not> is_digit c \<and> c \<noteq> CHR ''.'' \<and> c \<noteq> CHR ''e'' \<and> c \<noteq> CHR ''E'')"

lemma is_digit_byte [simp]: "n < 10 \<Longrightarrow> is_digit (byte (48 + n))"
  by (simp add: is_digit_def in_range_def)

lemma digit_val_byte [simp]: "n < 10 \<Longrightarrow> digit_val (byte (48 + n)) = int n"
  by (simp add: digit_val_def)

lemma itoa_digits: "0 \<le> n \<Longrightarrow> list_all is_digit (itoa n)"
proof (induction n rule: itoa.induct)
  case (1 n)
  then show ?case by (subst itoa.simps) (simp add: nat_less_iff)
qed

lemma foldl_digits:
  "foldl (\<lambda>n c. 10 * n + digit_val c) x b
     = x * 10 ^ length b + foldl (\<lambda>n c. 10 * n + digit_val c) 0 b"
proof (induction b arbitrary: x)
  case (Cons c b)
  from Cons [of "10 * x + digit_val c"] Cons [of "digit_val c"] show ?case
    by (simp add: algebra_simps)
qed simp

lemma digits_val_append: "digits_val (a @ b) = digits_val a * 10 ^ length b + digits_val b"
  using foldl_digits [of "digits_val a" b] by (simp add: digits_val_def)

lemma digits_val_Nil [simp]: "digits_val [] = 0"
  by (simp add: digits_val_def)

lemma digits_val_single [simp]: "digits_val [c] = digit_val c"
  by (simp add: digits_val_def)

lemma digits_val_itoa [simp]: "0 \<le> n \<Longrightarrow> digits_val (itoa n) = n"
proof (induction n rule: itoa.induct)
  case (1 n)
  show ?case
  proof (cases "n < 10")
    case True
    then show ?thesis using 1(2) by (subst itoa.simps) simp
  next
    case False
    then show ?thesis
      using 1 by (subst itoa.simps) (simp add: digits_val_append nat_less_iff)
  qed
qed

lemma digit_val_0 [simp]: "digit_val CHR ''0'' = 0"
  by code_simp

lemma itoa_small: "n < 10 \<Longrightarrow> itoa n = [byte (48 + nat n)]"
  by (subst itoa.simps) simp

lemma itoa_lead: "0 < n \<Longrightarrow> hd (itoa n) \<noteq> CHR ''0''"
proof (induction n rule: itoa.induct)
  case (1 n)
  show ?case
  proof (cases "n < 10")
    case True
    show ?thesis
    proof
      assume "hd (itoa n) = CHR ''0''"
      then have "digit_val (byte (48 + nat n)) = 0" using itoa_small [OF True] by simp
      then show False using 1(2) True by simp
    qed
  next
    case False
    then have "itoa n = itoa (n div 10) @ [byte (48 + nat (n mod 10))]" by (subst itoa.simps) simp
    then show ?thesis using 1(1) False by simp
  qed
qed

definition no_digit :: "gostring \<Rightarrow> bool" where
  "no_digit r \<longleftrightarrow> r = [] \<or> \<not> is_digit (hd r)"

lemma span_digits_append:
  "list_all is_digit ds \<Longrightarrow> no_digit r \<Longrightarrow> span_digits (ds @ r) = (ds, r)"
proof (induction ds)
  case Nil
  then show ?case by (cases r) (simp_all add: span_digits_def no_digit_def)
next
  case (Cons c ds)
  then show ?case by (simp add: span_digits_def)
qed

lemma lex_int_zero: "lex_int (CHR ''0'' # r) = Some (''0'', r)"
  by (simp add: lex_int_def)

lemma lex_int_digits:
  assumes "list_all is_digit ds" "ds \<noteq> []" "hd ds \<noteq> CHR ''0''" "no_digit r"
  shows "lex_int (ds @ r) = Some (ds, r)"
  using assms span_digits_append [OF assms(1,4)] by (cases ds) (auto simp: lex_int_def)

lemma lex_frac_digits:
  "list_all is_digit ds \<Longrightarrow> ds \<noteq> [] \<Longrightarrow> no_digit r \<Longrightarrow> lex_frac (CHR ''.'' # ds @ r) = Some (ds, r)"
  by (simp add: lex_frac_def span_digits_append)

lemma lex_frac_none: "r = [] \<or> hd r \<noteq> CHR ''.'' \<Longrightarrow> lex_frac r = Some ([], r)"
  by (cases r) (auto simp: lex_frac_def)

lemma lex_exp_none: "ends_number r \<Longrightarrow> lex_exp r = Some (0, r)"
  by (cases r) (auto simp: lex_exp_def ends_number_def)

lemma ends_number_no_digit: "ends_number r \<Longrightarrow> no_digit r"
  by (cases r) (auto simp: no_digit_def ends_number_def)

lemma ends_number_dot: "ends_number r \<Longrightarrow> r = [] \<or> hd r \<noteq> CHR ''.''"
  by (cases r) (auto simp: ends_number_def)

lemma is_digit_sign [simp]: "\<not> is_digit CHR ''-''" "\<not> is_digit CHR ''.''" "\<not> is_digit CHR ''e''"
  "\<not> is_digit CHR ''+''"
  by code_simp+

lemma digits_val_zeros [simp]: "digits_val (replicate n CHR ''0'') = 0"
proof (induction n)
  case (Suc n)
  then show ?case
    using digits_val_append [of "[CHR ''0'']" "replicate n CHR ''0''"] by simp
qed simp

lemma digits_val_zero_Cons [simp]: "digits_val (CHR ''0'' # ds) = digits_val ds"
  using digits_val_zeros [of 1] digits_val_append [of "[CHR ''0'']" ds] by simp

lemma digits_zeros [simp]: "list_all is_digit (replicate n CHR ''0'')"
  by (induction n) (simp_all, code_simp)

lemma exp_val_small:
  assumes "digits_val ds < 100000" "list_all is_digit ds"
  shows "exp_val ds = digits_val ds"
  using assms
proof (induction ds rule: rev_induct)
  case (snoc c ds)
  have nn: "0 \<le> digit_val c" if "is_digit c" for c
    using that by (simp add: digit_val_def is_digit_def in_range_def)
  then have "0 \<le> digit_val c" using snoc.prems by simp
  moreover have "digits_val (ds @ [c]) = 10 * digits_val ds + digit_val c"
    by (simp add: digits_val_def)
  ultimately have "digits_val ds < 10000" using snoc.prems by simp
  then show ?case using snoc by (simp add: exp_val_def digits_val_def)
qed (simp add: exp_val_def)

text \<open>The text denotes the decimal value \<open>q\<close> with the given sign.\<close>

definition reads_as :: "gostring \<Rightarrow> rat \<Rightarrow> bool" where
  "reads_as t q \<longleftrightarrow> t \<noteq> [] \<and> hd t \<noteq> CHR ''-'' \<and>
     (\<forall>rest. ends_number rest \<longrightarrow>
        (\<exists>i f x s3. lex_int (t @ rest) = Some (i, f) \<and>
           (\<exists>fr. lex_frac f = Some (fr, s3) \<and> lex_exp s3 = Some (x, rest)
             \<and> dec_value (digits_val (i @ fr)) (x - int (length fr)) = q)))"

lemma dec_value_shift: "dec_value (d * 10 ^ n) e = dec_value d (e + int n)"
  by (simp add: dec_value_def power_int_add)

lemma reads_plain:
  assumes "0 < d"
  shows "reads_as (plain_digits (itoa d) e) (dec_value d e)"
proof -
  let ?ds = "itoa d"
  have ds: "list_all is_digit ?ds" "?ds \<noteq> []" "hd ?ds \<noteq> CHR ''0''" "digits_val ?ds = d"
    using assms itoa_digits [of d] itoa_lead [of d] by simp_all
  define p where "p = int (length ?ds) + e"
  have hm: "hd ?ds \<noteq> CHR ''-''"
    using ds(1,2) by (cases ?ds) auto
  consider (small) "p \<le> 0" | (whole) "0 < p" "0 \<le> e" | (mixed) "0 < p" "e < 0" by linarith
  then show ?thesis
  proof cases
    case small
    let ?z = "replicate (nat (- p)) CHR ''0''"
    have t: "plain_digits ?ds e = CHR ''0'' # CHR ''.'' # (?z @ ?ds)"
      using small by (simp add: plain_digits_def Let_def p_def)
    have "lex_frac (CHR ''.'' # (?z @ ?ds) @ rest) = Some (?z @ ?ds, rest)" if "ends_number rest" for rest
      using ds ends_number_no_digit [OF that] by (intro lex_frac_digits) simp_all
    moreover have "digits_val (''0'' @ ?z @ ?ds) = d"
      using ds(4) by (simp add: digits_val_append)
    moreover have "0 - int (length (?z @ ?ds)) = e" using small by (simp add: p_def)
    ultimately show ?thesis
      unfolding reads_as_def t by (auto simp: lex_int_zero lex_exp_none)
  next
    case whole
    let ?z = "replicate (nat e) CHR ''0''"
    have t: "plain_digits ?ds e = ?ds @ ?z"
      using whole by (simp add: plain_digits_def Let_def p_def)
    have "lex_int ((?ds @ ?z) @ rest) = Some (?ds @ ?z, rest)" if "ends_number rest" for rest
      using ds ends_number_no_digit [OF that] by (intro lex_int_digits) simp_all
    moreover have "dec_value (digits_val (?ds @ ?z)) 0 = dec_value d e"
      using whole ds(4) dec_value_shift [of d "nat e" 0] by (simp add: digits_val_append)
    ultimately show ?thesis
      unfolding reads_as_def t using ds(2) hm
      by (auto simp: lex_frac_none [OF ends_number_dot] lex_exp_none)
  next
    case mixed
    let ?a = "take (nat p) ?ds" and ?b = "drop (nat p) ?ds"
    have lt: "nat p < length ?ds" "0 < nat p" using mixed by (simp_all add: p_def nat_less_iff)
    have t: "plain_digits ?ds e = ?a @ CHR ''.'' # ?b"
      using mixed by (simp add: plain_digits_def Let_def p_def)
    have ab: "list_all is_digit ?a" "list_all is_digit ?b" "?a \<noteq> []" "?b \<noteq> []" "hd ?a = hd ?ds"
      using ds(1,2) lt by (auto simp: list_all_iff dest: in_set_takeD in_set_dropD)
    have "lex_int (?a @ CHR ''.'' # ?b @ rest) = Some (?a, CHR ''.'' # ?b @ rest)" for rest
      using ab ds(3) by (intro lex_int_digits) (simp_all add: no_digit_def)
    moreover have "lex_frac (CHR ''.'' # ?b @ rest) = Some (?b, rest)" if "ends_number rest" for rest
      using ab ends_number_no_digit [OF that] by (intro lex_frac_digits) simp_all
    moreover have "digits_val (?a @ ?b) = d" using ds(4) by simp
    moreover have "0 - int (length ?b) = e" using lt by (simp add: p_def)
    ultimately show ?thesis
      unfolding reads_as_def t using ab hm by (auto simp: lex_exp_none)
  qed
qed

lemma lex_exp_signed:
  assumes "\<bar>x\<bar> < 100000" "ends_number rest"
  shows "lex_exp (CHR ''e'' # (if x < 0 then CHR ''-'' else CHR ''+'') # itoa \<bar>x\<bar> @ rest)
           = Some (x, rest)"
proof -
  have "span_digits (itoa \<bar>x\<bar> @ rest) = (itoa \<bar>x\<bar>, rest)"
    using itoa_digits [of "\<bar>x\<bar>"] ends_number_no_digit [OF assms(2)] by (intro span_digits_append) simp_all
  moreover have "exp_val (itoa \<bar>x\<bar>) = \<bar>x\<bar>"
    using assms(1) itoa_digits [of "\<bar>x\<bar>"] by (subst exp_val_small) simp_all
  ultimately show ?thesis by (simp add: lex_exp_def)
qed

lemma reads_exponent:
  assumes "0 < d" "\<bar>int (length (itoa d)) + e - 1\<bar> < 100000"
  shows "reads_as (exponent_digits (itoa d) e) (dec_value d e)"
proof -
  let ?ds = "itoa d"
  have ds: "list_all is_digit ?ds" "?ds \<noteq> []" "hd ?ds \<noteq> CHR ''0''" "digits_val ?ds = d"
    using assms itoa_digits [of d] itoa_lead [of d] by simp_all
  obtain c cs where c: "?ds = c # cs" using ds(2) by (cases ?ds) auto
  define x where "x = int (length ?ds) + e - 1"
  define ex where "ex = CHR ''e'' # (if x < 0 then CHR ''-'' else CHR ''+'') # itoa \<bar>x\<bar>"
  have t: "exponent_digits ?ds e = c # (if cs = [] then [] else CHR ''.'' # cs) @ ex"
    by (simp add: exponent_digits_def Let_def c ex_def x_def)
  have dc: "is_digit c" "c \<noteq> CHR ''0''" "list_all is_digit cs" "c \<noteq> CHR ''-''"
    using ds(1,3) c by auto
  have lx: "lex_exp (ex @ rest) = Some (x, rest)" if "ends_number rest" for rest
    using lex_exp_signed [OF _ that, of x] assms(2) by (simp add: ex_def x_def)
  have nd: "no_digit (ex @ rest)" "hd (ex @ rest) \<noteq> CHR ''.''" for rest
    by (simp_all add: ex_def no_digit_def)
  have li: "lex_int (c # r) = Some ([c], r)" if "no_digit r" for r
    using lex_int_digits [of "[c]" r] dc that by simp
  show ?thesis
  proof (cases "cs = []")
    case True
    moreover have "digits_val [c] = d" "x = e" using True c ds(4) by (simp_all add: x_def)
    ultimately show ?thesis
      unfolding reads_as_def t using dc nd by (auto simp: li lx lex_frac_none)
  next
    case False
    have "lex_frac (CHR ''.'' # cs @ ex @ rest) = Some (cs, ex @ rest)" for rest
      using False dc nd by (intro lex_frac_digits) simp_all
    moreover have "digits_val (c # cs) = d" "x - int (length cs) = e"
      using c ds(4) by (simp_all add: x_def)
    ultimately show ?thesis
      unfolding reads_as_def t using False dc by (auto simp: li lx no_digit_def)
  qed
qed

subsection \<open>The exponent of a float is small\<close>

lemma powi2_10:
  fixes k :: int
  shows "0 \<le> k \<Longrightarrow> (2::rat) powi k \<le> 10 powi k" "k \<le> 0 \<Longrightarrow> (10::rat) powi k \<le> 2 powi k"
proof -
  have pm: "(2::rat) ^ n \<le> 10 ^ n" for n :: nat
    by (rule power_mono) simp_all
  show "(2::rat) powi k \<le> 10 powi k" if "0 \<le> k"
    using pm [of "nat k"] that by (simp only: power_int_def if_True)
  show "(10::rat) powi k \<le> 2 powi k" if "k \<le> 0"
  proof -
    define n where "n = nat (- k)"
    have k: "k = - int n" using that by (simp add: n_def)
    have "inverse ((10::rat) ^ n) \<le> inverse (2 ^ n)"
      by (rule le_imp_inverse_le [OF pm]) simp
    then show ?thesis by (simp only: k power_int_minus power_int_of_nat)
  qed
qed

lemma round_half_even_small:
  assumes "0 < x" "x < 1 / 2"
  shows "round_half_even x = 0"
proof -
  have "\<lfloor>x\<rfloor> = 0" using assms by (simp add: floor_eq_iff)
  then show ?thesis using assms by (simp add: round_half_even_def)
qed

lemma round_float_range:
  assumes "0 < q" "round_float q = Some (m, e)" "m \<noteq> 0"
  shows "2 powi (-1076) \<le> q" "q < 2 powi 1025"
proof -
  define e0 where "e0 = max (log2_floor q - 52) (-1074)"
  define m0 where "m0 = round_half_even (q / 2 powi e0)"
  have r: "(if m0 = 2 ^ 53 then (2 ^ 52, e0 + 1) else (m0, e0)) = (m, e)" "e \<le> 971"
    using assms(1,2) by (auto simp: round_float_def Let_def simp flip: e0_def m0_def split: if_splits)
  then have "e0 \<le> 971" by (auto split: if_splits)
  then have "log2_floor q + 1 \<le> 1025" by (simp add: e0_def)
  then have "2 powi (log2_floor q + 1) \<le> (2::rat) powi 1025" by (intro power_int_increasing) simp_all
  then show "q < 2 powi 1025" using log2_floor_bounds(2) [OF assms(1)] by linarith
  show "2 powi (-1076) \<le> q"
  proof (rule ccontr)
    assume "\<not> ?thesis"
    then have lt: "q < 2 powi (-1076)" by simp
    have "log2_floor q < -1076"
    proof (rule ccontr)
      assume "\<not> ?thesis"
      then have "(2::rat) powi (-1076) \<le> 2 powi log2_floor q" by (intro power_int_increasing) simp_all
      then show False using lt log2_floor_bounds(1) [OF assms(1)] by linarith
    qed
    then have e0: "e0 = -1074" by (simp add: e0_def)
    have "q / 2 powi (-1074) < 2 powi (-1076) / 2 powi (-1074)"
      by (rule divide_strict_right_mono [OF lt]) simp
    also have "2 powi (-1076) / 2 powi (-1074) = (2::rat) powi (-2)"
      by (simp add: power_int_diff [symmetric])
    finally have "q / 2 powi e0 < 1 / 2" by (simp add: e0 power_int_minus)
    moreover have "0 < q / 2 powi e0" using assms(1) by simp
    ultimately have "m0 = 0" unfolding m0_def by (intro round_half_even_small)
    then show False using r assms(3) by simp
  qed
qed

lemma itoa_length:
  "0 < n \<Longrightarrow> 10 ^ (length (itoa n) - 1) \<le> n \<and> n < 10 ^ length (itoa n)"
proof (induction n rule: itoa.induct)
  case (1 n)
  show ?case
  proof (cases "n < 10")
    case True
    then show ?thesis using 1(2) by (simp add: itoa_small)
  next
    case False
    then have e: "itoa n = itoa (n div 10) @ [byte (48 + nat (n mod 10))]" by (subst itoa.simps) simp
    obtain k where k: "length (itoa (n div 10)) = Suc k"
      by (metis itoa_ne length_greater_0_conv gr0_implies_Suc)
    have "10 ^ k \<le> n div 10" "n div 10 < 10 ^ Suc k" using 1(1) False k by auto
    moreover have "10 * (n div 10) \<le> n" "n < 10 * (n div 10) + 10" by linarith+
    ultimately show ?thesis unfolding e by (simp add: k)
  qed
qed

lemma exponent_small:
  assumes "0 < d" "round_float (dec_value d e) = Some (m, x)" "m \<noteq> 0"
  shows "\<bar>int (length (itoa d)) + e - 1\<bar> < 100000"
proof -
  define k where "k = int (length (itoa d)) + e"
  have q: "0 < dec_value d e" using assms(1) by (simp add: dec_value_def)
  note b = round_float_range [OF q assms(2,3)]
  have len: "0 < length (itoa d)" by simp
  define l where "l = length (itoa d) - 1"
  have l: "length (itoa d) = Suc l" using len by (simp add: l_def)
  have "(of_int (10 ^ l) :: rat) \<le> of_int d" "(of_int d :: rat) < of_int (10 ^ Suc l)"
    using itoa_length [OF assms(1)] unfolding l diff_Suc_1 by (simp_all only: of_int_le_iff of_int_less_iff)
  then have d: "(10::rat) powi int l \<le> of_int d" "of_int d < (10::rat) powi int (Suc l)"
    by (simp_all only: of_int_power of_int_numeral power_int_of_nat)
  have "(10::rat) powi int l * 10 powi e \<le> dec_value d e"
    "dec_value d e < (10::rat) powi int (Suc l) * 10 powi e"
    unfolding dec_value_def using d
    by (auto intro!: mult_right_mono mult_strict_right_mono simp del: power_int_of_nat)
  moreover have "k - 1 = int l + e" "k = int (Suc l) + e" by (simp_all add: k_def l)
  ultimately have k: "(10::rat) powi (k - 1) \<le> dec_value d e" "dec_value d e < 10 powi k"
    using power_int_add [of "10::rat" "int l" e] power_int_add [of "10::rat" "int (Suc l)" e] by simp_all
  have "k - 1 < 1025"
  proof (rule ccontr)
    assume "\<not> ?thesis"
    then have "(10::rat) powi 1025 \<le> 10 powi (k - 1)" by (intro power_int_increasing) simp_all
    then show False using k(1) b(2) powi2_10(1) [of 1025] by linarith
  qed
  moreover have "-1076 < k"
  proof (rule ccontr)
    assume "\<not> ?thesis"
    then have "(10::rat) powi k \<le> 10 powi (-1076)" by (intro power_int_increasing) simp_all
    then show False using k(2) b(1) powi2_10(2) [of "-1076"] by linarith
  qed
  ultimately show ?thesis by (simp add: k_def)
qed

lemma shortest_pos:
  assumes "canonical_float m e" "m \<noteq> 0" "shortest m e = (d, x)"
  shows "0 < d"
proof (rule ccontr)
  assume "\<not> 0 < d"
  have r: "round_float (dec_value d x) = Some (m, e)" by (rule shortest_round [OF assms(1,3)])
  show False
  proof (cases "d = 0")
    case True
    then show False using r assms(2) by (simp add: round_float_def dec_value_def)
  next
    case False
    then have neg: "dec_value d x < 0"
      using \<open>\<not> 0 < d\<close> by (simp add: dec_value_def mult_less_0_iff)
    define y where "y = max (log2_floor (dec_value d x) - 52) (-1074)"
    have "round_half_even (dec_value d x / 2 powi y) \<le> 0"
      using neg by (intro round_half_even_bounds(2)) (simp add: divide_less_0_iff)
    then have "m \<le> 0"
      using r neg by (auto simp: round_float_def Let_def simp flip: y_def split: if_splits)
    then show False using assms(1,2) by (simp add: canonical_float_def)
  qed
qed

theorem parse_format_number:
  assumes "canonical_float m e" "ends_number rest"
  shows "parse_number (format_float (F64 neg m e) @ rest) = Some (F64 neg m e, rest)"
proof -
  define t where "t = (if m = 0 then ''0''
           else case shortest m e of
                  (d, x) \<Rightarrow>
                    if exponent_form (f_value m e) then exponent_digits (itoa d) x
                    else plain_digits (itoa d) x)"
  have "\<exists>q. reads_as t q \<and> round_float q = Some (m, e)"
  proof (cases "m = 0")
    case True
    then have "e = -1074" using assms(1) by (simp add: canonical_float_def)
    moreover have "reads_as ''0'' 0"
      by (auto simp: reads_as_def lex_int_zero lex_frac_none [OF ends_number_dot] lex_exp_none
          dec_value_def digits_val_zero_Cons)
    ultimately show ?thesis using True by (intro exI [of _ 0]) (simp add: t_def round_float_def)
  next
    case False
    obtain d x where s: "shortest m e = (d, x)" by fastforce
    have r: "round_float (dec_value d x) = Some (m, e)" by (rule shortest_round [OF assms(1) s])
    have d: "0 < d" by (rule shortest_pos [OF assms(1) False s])
    have "reads_as t (dec_value d x)"
      using False s reads_plain [OF d] reads_exponent [OF d exponent_small [OF d r False]]
      by (simp add: t_def)
    then show ?thesis using r by blast
  qed
  then obtain q i f fr x s3 where q: "round_float q = Some (m, e)" "t \<noteq> []" "hd t \<noteq> CHR ''-''"
    "lex_int (t @ rest) = Some (i, f)" "lex_frac f = Some (fr, s3)" "lex_exp s3 = Some (x, rest)"
    "dec_value (digits_val (i @ fr)) (x - int (length fr)) = q"
    unfolding reads_as_def using assms(2) by blast
  have "format_float (F64 neg m e) = (if neg then ''-'' else []) @ t"
    by (simp add: format_float_def t_def)
  then show ?thesis
    using q by (cases neg) (auto simp: parse_number_def lex_number_def Let_def)
qed

lemma plain_digits_hd: "ds \<noteq> [] \<Longrightarrow> list_all is_digit ds \<Longrightarrow>
    \<exists>c cs. plain_digits ds e = c # cs \<and> is_digit c"
  by (cases ds; cases "nat (int (length ds) + e)")
    (auto simp: plain_digits_def Let_def, code_simp)

text \<open>The first byte of a printed number: a digit or the sign.\<close>

lemma format_float_hd:
  assumes "canonical_float m e"
  shows "\<exists>c cs. format_float (F64 neg m e) = c # cs \<and> (c = CHR ''-'' \<or> is_digit c)"
proof (cases "m = 0 \<or> neg")
  case True
  have "is_digit CHR ''0''" by code_simp
  then show ?thesis using True by (auto simp: format_float_def)
next
  case False
  obtain d x where s: "shortest m e = (d, x)" by fastforce
  have "0 < d" using shortest_pos [OF assms _ s] False by simp
  then have i: "list_all is_digit (itoa d)" "itoa d \<noteq> []" using itoa_digits [of d] by simp_all
  then have "is_digit (hd (itoa d))" by (cases "itoa d") auto
  then show ?thesis
    using False s plain_digits_hd [OF i(2,1), of x]
    by (auto simp: format_float_def exponent_digits_def Let_def)
qed

lemma span_digits_length: "span_digits s = (ds, t) \<Longrightarrow> length ds + length t = length s"
  by (auto simp: span_digits_def simp flip: length_append)

lemma lex_int_length: "lex_int s = Some (i, t) \<Longrightarrow> length t < length s"
  by (auto simp: lex_int_def span_digits_def split: list.splits if_splits
      intro: le_imp_less_Suc length_dropWhile_le)

lemma lex_frac_length: "lex_frac s = Some (i, t) \<Longrightarrow> length t \<le> length s"
  by (auto simp: lex_frac_def span_digits_def split: list.splits if_splits
      intro: le_SucI length_dropWhile_le)

lemma lex_exp_length: "lex_exp s = Some (i, t) \<Longrightarrow> length t \<le> length s"
  by (auto simp: lex_exp_def span_digits_def Let_def neq_Nil_conv split: list.splits if_splits
      intro: le_SucI length_dropWhile_le)

lemma parse_number_length: "parse_number s = Some (x, t) \<Longrightarrow> length t < length s"
  by (auto simp: parse_number_def lex_number_def Let_def neq_Nil_conv split: option.splits if_splits
      dest!: lex_int_length lex_frac_length lex_exp_length)

lemma digits_val_nonneg: "list_all is_digit ds \<Longrightarrow> 0 \<le> digits_val ds"
proof (induction ds rule: rev_induct)
  case (snoc c ds)
  then show ?case
    by (simp add: digits_val_append digit_val_def is_digit_def in_range_def)
qed simp

lemma lex_digits:
  "lex_int s = Some (i, t) \<Longrightarrow> list_all is_digit i"
  "lex_frac s = Some (i, t) \<Longrightarrow> list_all is_digit i"
proof -
  have w: "list_all is_digit (takeWhile is_digit u)" for u
    by (auto simp: list_all_iff dest: set_takeWhileD)
  have z: "is_digit CHR ''0''" by code_simp
  show "lex_int s = Some (i, t) \<Longrightarrow> list_all is_digit i"
    using w z by (auto simp: lex_int_def span_digits_def split: list.splits if_splits)
  show "lex_frac s = Some (i, t) \<Longrightarrow> list_all is_digit i"
    using w by (auto simp: lex_frac_def span_digits_def split: list.splits if_splits)
qed

lemma parse_number_canonical:
  assumes "parse_number s = Some (F64 neg m e, t)"
  shows "canonical_float m e"
proof -
  obtain d x u where l: "lex_number s = Some ((neg, d, x), u)" and r: "round_float (dec_value d x) = Some (m, e)"
    using assms by (auto simp: parse_number_def split: option.splits)
  define s1 where "s1 = (if s \<noteq> [] \<and> hd s = CHR ''-'' then tl s else s)"
  obtain s2 s3 i f where "lex_int s1 = Some (i, s2)" "lex_frac s2 = Some (f, s3)"
    and d: "d = digits_val (i @ f)"
    using l unfolding lex_number_def Let_def s1_def [symmetric] by (auto split: option.splits) blast+
  then have "list_all is_digit (i @ f)" using lex_digits by simp
  then have "0 \<le> d" unfolding d by (rule digits_val_nonneg)
  then have "0 \<le> dec_value d x" by (simp add: dec_value_def)
  then show ?thesis using r by (rule round_float_canonical)
qed

end
