(* ===== verification/Json.thy ===== *)
theory Json
  imports Paths Number
begin

text \<open>
  The values that \<open>encoding/json\<close> decodes into \<open>interface{}\<close>, and the operations the checks
  use on them: map lookup and assignment, type assertions, \<open>isTruthy\<close>, and
  \<open>strings.TrimSpace\<close>.  An object is its list of entries in the order in which \<open>range\<close> would
  enumerate the Go map, so a statement about every list is one about every iteration order.
\<close>

section \<open>Values\<close>

datatype json =
    JNull
  | JBool bool
  | JNum float64
  | JStr gostring
  | JArr "json list"
  | JObj "(gostring \<times> json) list"

type_synonym fields = "(gostring \<times> json) list"

text \<open>\<open>m[k]\<close> with its presence flag, and \<open>m[k] = v\<close> on a map that is not nil.\<close>

abbreviation field :: "fields \<Rightarrow> gostring \<Rightarrow> json option" where
  "field m k \<equiv> map_of m k"

abbreviation set_field :: "gostring \<Rightarrow> json \<Rightarrow> fields \<Rightarrow> fields" where
  "set_field k v m \<equiv> AList.update k v m"

text \<open>\<open>m[k]\<close> without the flag: a missing key gives nil.\<close>

definition field_or_nil :: "fields \<Rightarrow> gostring \<Rightarrow> json" where
  "field_or_nil m k = (case field m k of None \<Rightarrow> JNull | Some v \<Rightarrow> v)"

text \<open>The guard \<open>v, present := m[k]; present && v != nil\<close>.\<close>

definition present :: "fields \<Rightarrow> gostring \<Rightarrow> json option" where
  "present m k = (case field m k of None \<Rightarrow> None | Some v \<Rightarrow> if v = JNull then None else Some v)"

text \<open>The assertions \<open>v.(string)\<close>, \<open>v.(map[string]interface{})\<close>, \<open>v.([]interface{})\<close>.\<close>

fun as_str :: "json \<Rightarrow> gostring option" where
  "as_str (JStr s) = Some s"
| "as_str _ = None"

fun as_obj :: "json \<Rightarrow> fields option" where
  "as_obj (JObj m) = Some m"
| "as_obj _ = None"

fun as_arr :: "json \<Rightarrow> json list option" where
  "as_arr (JArr vs) = Some vs"
| "as_arr _ = None"

text \<open>\<open>s, _ := v.(string)\<close>: the zero value when the assertion fails.\<close>

definition str_or_empty :: "json \<Rightarrow> gostring" where
  "str_or_empty v = (case as_str v of Some s \<Rightarrow> s | None \<Rightarrow> [])"

fun isTruthy :: "json \<Rightarrow> bool" where
  "isTruthy JNull = False"
| "isTruthy (JBool b) = b"
| "isTruthy (JStr s) = (s \<noteq> [])"
| "isTruthy (JNum x) = (f_mant x \<noteq> 0)"
| "isTruthy (JArr vs) = (vs \<noteq> [])"
| "isTruthy (JObj m) = (m \<noteq> [])"

named_theorems json_simps "unfolding of the accessors"

lemma as_Some [json_simps]:
  "as_str v = Some s \<longleftrightarrow> v = JStr s"
  "as_obj v = Some m \<longleftrightarrow> v = JObj m"
  "as_arr v = Some vs \<longleftrightarrow> v = JArr vs"
  by (cases v; simp)+

lemma field_set_field [simp, json_simps]:
  "field (set_field k v m) k' = (if k = k' then Some v else field m k')"
  by (simp add: update_conv')

lemma present_set_field [simp, json_simps]:
  "present (set_field k v m) k' =
     (if k = k' then (if v = JNull then None else Some v) else present m k')"
  by (simp add: present_def)

lemma present_Some [json_simps]: "present m k = Some v \<longleftrightarrow> field m k = Some v \<and> v \<noteq> JNull"
  by (auto simp: present_def split: option.splits)

lemma set_field_fst: "set (map fst (set_field k v m)) = insert k (set (map fst m))"
  using AList.dom_update [of k v m] by (simp add: image_Un)

section \<open>TrimSpace\<close>

text \<open>The UTF-8 encodings of the runes for which \<open>unicode.IsSpace\<close> holds.\<close>

definition space_seqs :: "gostring list" where
  "space_seqs =
     map (map byte)
       ([[9], [10], [11], [12], [13], [32], [0xC2, 0x85], [0xC2, 0xA0], [0xE1, 0x9A, 0x80]]
        @ map (\<lambda>k. [0xE2, 0x80, 0x80 + k]) [0..<11]
        @ [[0xE2, 0x80, 0xA8], [0xE2, 0x80, 0xA9], [0xE2, 0x80, 0xAF], [0xE2, 0x81, 0x9F],
           [0xE3, 0x80, 0x80]])"

lemma space_seqs_code [code]:
  "space_seqs = [[CHR 0x09], [CHR 0x0A], [CHR 0x0B], [CHR 0x0C], [CHR 0x0D], [CHR 0x20],
     [CHR 0xC2, CHR 0x85], [CHR 0xC2, CHR 0xA0], [CHR 0xE1, CHR 0x9A, CHR 0x80],
     [CHR 0xE2, CHR 0x80, CHR 0x80], [CHR 0xE2, CHR 0x80, CHR 0x81], [CHR 0xE2, CHR 0x80, CHR 0x82],
     [CHR 0xE2, CHR 0x80, CHR 0x83], [CHR 0xE2, CHR 0x80, CHR 0x84], [CHR 0xE2, CHR 0x80, CHR 0x85],
     [CHR 0xE2, CHR 0x80, CHR 0x86], [CHR 0xE2, CHR 0x80, CHR 0x87], [CHR 0xE2, CHR 0x80, CHR 0x88],
     [CHR 0xE2, CHR 0x80, CHR 0x89], [CHR 0xE2, CHR 0x80, CHR 0x8A],
     [CHR 0xE2, CHR 0x80, CHR 0xA8], [CHR 0xE2, CHR 0x80, CHR 0xA9], [CHR 0xE2, CHR 0x80, CHR 0xAF],
     [CHR 0xE2, CHR 0x81, CHR 0x9F], [CHR 0xE3, CHR 0x80, CHR 0x80]]"
  by (simp add: space_seqs_def byte_def upt_rec char_of_def bit_iff_odd)

lemma space_seqs_ne: "w \<in> set space_seqs \<Longrightarrow> w \<noteq> []"
  by (auto simp: space_seqs_def)

definition strip_prefix :: "gostring \<Rightarrow> gostring option" where
  "strip_prefix s = map_option (\<lambda>w. drop (length w) s) (find (\<lambda>w. prefix w s) space_seqs)"

definition strip_suffix :: "gostring \<Rightarrow> gostring option" where
  "strip_suffix s =
     map_option (\<lambda>w. take (length s - length w) s) (find (\<lambda>w. suffix w s) space_seqs)"

lemma strip_prefix_Some:
  "strip_prefix s = Some t \<Longrightarrow> \<exists>w \<in> set space_seqs. s = w @ t"
  by (auto simp: strip_prefix_def find_Some_iff prefix_def intro!: bexI)

lemma strip_suffix_Some:
  "strip_suffix s = Some t \<Longrightarrow> \<exists>w \<in> set space_seqs. s = t @ w"
  by (auto simp: strip_suffix_def find_Some_iff suffix_def intro!: bexI)

lemma strip_less:
  "strip_prefix s = Some t \<Longrightarrow> length t < length s"
  "strip_suffix s = Some t \<Longrightarrow> length t < length s"
  by (auto dest!: strip_prefix_Some strip_suffix_Some space_seqs_ne)

function trim_left :: "gostring \<Rightarrow> gostring" where
  "trim_left s = (case strip_prefix s of None \<Rightarrow> s | Some t \<Rightarrow> trim_left t)"
  by pat_completeness auto
termination by (relation "measure length") (auto dest: strip_less)

function trim_right :: "gostring \<Rightarrow> gostring" where
  "trim_right s = (case strip_suffix s of None \<Rightarrow> s | Some t \<Rightarrow> trim_right t)"
  by pat_completeness auto
termination by (relation "measure length") (auto dest: strip_less)

declare trim_left.simps [simp del] trim_right.simps [simp del]

definition trim_space :: "gostring \<Rightarrow> gostring" where
  "trim_space s = trim_right (trim_left s)"

lemma trim_left_suffix: "suffix (trim_left s) s"
proof (induction s rule: trim_left.induct)
  case (1 s)
  show ?case
  proof (cases "strip_prefix s")
    case (Some t)
    then obtain w where "s = w @ t" using strip_prefix_Some by blast
    then show ?thesis
      using 1 [OF Some] Some suffix_appendI [of "trim_left t" t w] by (subst trim_left.simps) simp
  qed (simp add: trim_left.simps)
qed

lemma trim_right_prefix: "prefix (trim_right s) s"
proof (induction s rule: trim_right.induct)
  case (1 s)
  show ?case
  proof (cases "strip_suffix s")
    case (Some t)
    then obtain w where "s = t @ w" using strip_suffix_Some by blast
    then show ?thesis
      using 1 [OF Some] Some by (subst trim_right.simps) simp
  qed (simp add: trim_right.simps)
qed

text \<open>The trimmed string is the input without a prefix and a suffix.\<close>

lemma trim_space_parts: "\<exists>a b. s = a @ trim_space s @ b"
proof -
  obtain a b where "s = a @ trim_left s" "trim_left s = trim_space s @ b"
    using trim_left_suffix [of s] trim_right_prefix [of "trim_left s"]
    unfolding trim_space_def prefix_def suffix_def by blast
  then show ?thesis by metis
qed

lemma trim_space_id:
  "strip_prefix s = None \<Longrightarrow> strip_suffix s = None \<Longrightarrow> trim_space s = s"
  by (simp add: trim_space_def trim_left.simps trim_right.simps)

section \<open>Documents in examples\<close>

text \<open>A JSON text as an Isabelle literal: a back quote stands for the double quote.\<close>

definition quotes :: "gostring \<Rightarrow> gostring" where
  "quotes s = map (\<lambda>c. if c = CHR 0x60 then dquote else c) s"

end
