(* ===== verification/Create.thy ===== *)
theory Create
  imports Json
begin

text \<open>
  \<open>internal/proxy/create.go\<close> on decoded bodies: the validation of a container-create request
  and its rewriting.  \<open>check_create_raw\<close> is \<open>CheckCreate\<close> between \<open>json.Unmarshal\<close> and
  \<open>json.Marshal\<close>; theory \<open>Bodies\<close> puts the codec around it.  The path functions are arguments
  (\<open>resolve\<close>, \<open>allowed\<close>), so that the lemmas about binds and mounts are proved in the locale
  \<open>path_policy\<close> and used through its interpretation on \<open>ResolvePath\<close> and \<open>IsPathAllowed\<close>.

  A decoded body is \<open>fields option\<close>: the document \<open>null\<close> leaves the Go map nil.
\<close>

section \<open>Errors\<close>

abbreviation squote :: char where "squote \<equiv> CHR 0x27"

definition quoted :: "gostring \<Rightarrow> gostring" where
  "quoted s = squote # s @ [squote]"

abbreviation reject :: "nat \<Rightarrow> gostring \<Rightarrow> 'a res" where
  "reject status message \<equiv> Inl (CreateError status message)"

section \<open>The checks\<close>

definition dangerousHostConfigFields :: "gostring list" where
  "dangerousHostConfigFields =
     [''Privileged'', ''VolumesFrom'', ''Devices'', ''DeviceCgroupRules'', ''DeviceRequests'',
      ''CapAdd'', ''CapDrop'', ''SecurityOpt'', ''PidMode'', ''IpcMode'', ''UTSMode'',
      ''UsernsMode'', ''CgroupnsMode'', ''CgroupParent'', ''Cgroup'', ''Runtime'', ''Sysctls'',
      ''Ulimits'', ''OomScoreAdj'', ''OomKillDisable'', ''DNS'', ''DNSOptions'', ''DNSSearch'',
      ''Links'']"

text \<open>9.7: the container user.\<close>

definition root_user :: "gostring \<Rightarrow> bool" where
  "root_user trimmed \<longleftrightarrow> trimmed = ''root'' \<or> trimmed = ''0'' \<or> prefix ''0:'' trimmed"

definition check_user :: "fields \<Rightarrow> unit res" where
  "check_user raw =
     (case present raw ''User'' of
        None \<Rightarrow> Inr ()
      | Some v \<Rightarrow>
          (case as_str v of
             None \<Rightarrow> reject 400 ''isolator: invalid User field type''
           | Some s \<Rightarrow>
               let trimmed = trim_space s
               in if root_user trimmed
                  then reject 403 (''isolator: container user '' @ quoted trimmed @ '' not allowed'')
                  else Inr ()))"

text \<open>9.1: the first dangerous field that is truthy.\<close>

definition dangerous_field :: "fields \<Rightarrow> gostring \<Rightarrow> go_error option" where
  "dangerous_field hc fld =
     (case field hc fld of
        None \<Rightarrow> None
      | Some v \<Rightarrow>
          if isTruthy v then Some (CreateError 403 (''isolator: '' @ fld @ '' is not allowed''))
          else None)"

definition check_dangerous :: "fields \<Rightarrow> unit res" where
  "check_dangerous hc = guard (first_error (dangerous_field hc) dangerousHostConfigFields)"

text \<open>9.2: extra hosts.\<close>

definition extra_host :: "json \<Rightarrow> go_error option" where
  "extra_host entry =
     (let entryStr = str_or_empty entry
      in if trim_space entryStr \<noteq> ''host.docker.internal:host-gateway''
         then Some (CreateError 403
                (''isolator: ExtraHosts entry '' @ quoted entryStr @ '' not allowed''))
         else None)"

definition check_extra_hosts :: "fields \<Rightarrow> unit res" where
  "check_extra_hosts hc =
     (case present hc ''ExtraHosts'' of
        None \<Rightarrow> Inr ()
      | Some eh \<Rightarrow>
          (case as_arr eh of
             None \<Rightarrow> reject 400 ''isolator: invalid ExtraHosts type''
           | Some ehArr \<Rightarrow> guard (first_error extra_host ehArr)))"

text \<open>9.3 and 9.4: networks.\<close>

definition networkAllowedForUser :: "gostring \<Rightarrow> gostring \<Rightarrow> bool" where
  "networkAllowedForUser name user \<longleftrightarrow>
     name \<in> set ['''', ''default'', ''bridge''] \<or> name = ''iso-'' @ user"

definition use_iso :: "gostring \<Rightarrow> gostring" where
  "use_iso user = '' not allowed (use iso-'' @ user @ '')''"

definition check_network_mode :: "gostring \<Rightarrow> fields \<Rightarrow> unit res" where
  "check_network_mode user hc =
     (case present hc ''NetworkMode'' of
        None \<Rightarrow> Inr ()
      | Some nm \<Rightarrow>
          (case as_str nm of
             None \<Rightarrow> reject 400 ''isolator: invalid NetworkMode type''
           | Some nmStr \<Rightarrow>
               if \<not> networkAllowedForUser nmStr user
               then reject 403 (''isolator: NetworkMode '' @ quoted nmStr @ use_iso user)
               else Inr ()))"

definition endpoint_key :: "gostring \<Rightarrow> gostring \<Rightarrow> go_error option" where
  "endpoint_key user key =
     (if \<not> networkAllowedForUser key user
      then Some (CreateError 403 (''isolator: network '' @ quoted key @ use_iso user))
      else None)"

definition check_endpoints :: "gostring \<Rightarrow> fields \<Rightarrow> unit res" where
  "check_endpoints user raw =
     (case present raw ''NetworkingConfig'' of
        None \<Rightarrow> Inr ()
      | Some nc \<Rightarrow>
          (case as_obj nc of
             None \<Rightarrow> reject 400 ''isolator: invalid NetworkingConfig type''
           | Some ncMap \<Rightarrow>
               (case present ncMap ''EndpointsConfig'' of
                  None \<Rightarrow> Inr ()
                | Some ep \<Rightarrow>
                    (case as_obj ep of
                       None \<Rightarrow> reject 400 ''isolator: invalid EndpointsConfig type''
                     | Some epMap \<Rightarrow> guard (first_error (endpoint_key user) (map fst epMap))))))"

section \<open>Binds and mounts\<close>

text \<open>9.5: one bind, \<open>source[:dest[:options]]\<close>, with its source resolved.\<close>

definition check_source ::
  "(gostring \<Rightarrow> gostring) \<Rightarrow> (gostring \<Rightarrow> gostring \<Rightarrow> bool) \<Rightarrow> gostring \<Rightarrow> gostring
     \<Rightarrow> gostring res" where
  "check_source resolve allowed user source =
     (let resolved = resolve source
      in if \<not> allowed resolved user
         then reject 403 (''isolator: bind mount not allowed: '' @ source)
         else if contains ''docker.sock'' resolved
         then reject 403 ''isolator: mounting Docker socket is not allowed''
         else Inr resolved)"

definition validateAndRewriteBind ::
  "(gostring \<Rightarrow> gostring) \<Rightarrow> (gostring \<Rightarrow> gostring \<Rightarrow> bool) \<Rightarrow> gostring \<Rightarrow> gostring
     \<Rightarrow> gostring res" where
  "validateAndRewriteBind resolve allowed user bind =
     (case split_on CHR '':'' bind of
        [] \<Rightarrow> reject 400 ''isolator: empty bind''
      | source # rest \<Rightarrow>
          if \<not> prefix ''/'' source
          then reject 403 (''isolator: named volume '' @ quoted source @ '' not allowed'')
          else res_bind (check_source resolve allowed user source)
                 (\<lambda>resolved. Inr (join_with CHR '':'' (resolved # rest))))"

text \<open>9.6: one mount entry, updated in place when it is a bind.\<close>

definition validateAndRewriteMount ::
  "(gostring \<Rightarrow> gostring) \<Rightarrow> (gostring \<Rightarrow> gostring \<Rightarrow> bool) \<Rightarrow> gostring \<Rightarrow> fields
     \<Rightarrow> fields res" where
  "validateAndRewriteMount resolve allowed user m =
     (let t = str_or_empty (field_or_nil m ''Type'')
      in if t = ''bind'' then
           (let src = str_or_empty (field_or_nil m ''Source'')
            in if \<not> prefix ''/'' src
               then reject 403 (''isolator: bind mount not allowed: '' @ src)
               else res_bind (check_source resolve allowed user src)
                      (\<lambda>resolved. Inr (set_field ''Source'' (JStr resolved) m)))
         else if t = ''volume'' then reject 403 ''isolator: named volumes are not allowed''
         else if t = ''tmpfs'' then Inr m
         else reject 403 (''isolator: mount type '' @ quoted t @ '' not allowed''))"

definition bind_entry ::
  "(gostring \<Rightarrow> gostring) \<Rightarrow> (gostring \<Rightarrow> gostring \<Rightarrow> bool) \<Rightarrow> gostring \<Rightarrow> json \<Rightarrow> json res" where
  "bind_entry resolve allowed user b =
     (case as_str b of
        None \<Rightarrow> reject 400 ''isolator: invalid Bind entry''
      | Some bs \<Rightarrow> res_bind (validateAndRewriteBind resolve allowed user bs) (\<lambda>s. Inr (JStr s)))"

definition mount_entry ::
  "(gostring \<Rightarrow> gostring) \<Rightarrow> (gostring \<Rightarrow> gostring \<Rightarrow> bool) \<Rightarrow> gostring \<Rightarrow> json \<Rightarrow> json res" where
  "mount_entry resolve allowed user m =
     (case as_obj m of
        None \<Rightarrow> reject 400 ''isolator: invalid Mount entry''
      | Some mMap \<Rightarrow>
          res_bind (validateAndRewriteMount resolve allowed user mMap) (\<lambda>m'. Inr (JObj m')))"

text \<open>The two loops: an absent or null field is left alone.\<close>

definition rewrite_list ::
  "gostring \<Rightarrow> (json \<Rightarrow> json res) \<Rightarrow> fields \<Rightarrow> fields res" where
  "rewrite_list name entry hc =
     (case present hc name of
        None \<Rightarrow> Inr hc
      | Some v \<Rightarrow>
          (case as_arr v of
             None \<Rightarrow> reject 400 (''isolator: invalid '' @ name @ '' type'')
           | Some vs \<Rightarrow>
               res_bind (res_map entry vs) (\<lambda>ws. Inr (set_field name (JArr ws) hc))))"

definition check_host_config ::
  "(gostring \<Rightarrow> gostring) \<Rightarrow> (gostring \<Rightarrow> gostring \<Rightarrow> bool) \<Rightarrow> gostring \<Rightarrow> fields
     \<Rightarrow> fields res" where
  "check_host_config resolve allowed user hc =
     res_bind (check_dangerous hc) (\<lambda>_.
     res_bind (check_extra_hosts hc) (\<lambda>_.
     res_bind (check_network_mode user hc) (\<lambda>_.
     res_bind (rewrite_list ''Binds'' (bind_entry resolve allowed user) hc) (\<lambda>hc1.
     rewrite_list ''Mounts'' (mount_entry resolve allowed user) hc1))))"

definition rewrite_host_config ::
  "(gostring \<Rightarrow> gostring) \<Rightarrow> (gostring \<Rightarrow> gostring \<Rightarrow> bool) \<Rightarrow> gostring \<Rightarrow> fields
     \<Rightarrow> fields res" where
  "rewrite_host_config resolve allowed user raw =
     (case present raw ''HostConfig'' of
        None \<Rightarrow> Inr raw
      | Some v \<Rightarrow>
          (case as_obj v of
             None \<Rightarrow> reject 400 ''isolator: invalid HostConfig type''
           | Some hc \<Rightarrow>
               res_bind (check_host_config resolve allowed user hc)
                 (\<lambda>hc'. Inr (set_field ''HostConfig'' (JObj hc') raw))))"

text \<open>9.8: the owner label.  On a nil map the assignment \<open>raw["Labels"] = labels\<close> panics.\<close>

definition owner_labels :: "gostring \<Rightarrow> fields \<Rightarrow> fields" where
  "owner_labels user raw =
     (case as_obj (field_or_nil raw ''Labels'') of
        None \<Rightarrow> [(owner_label, JStr user)]
      | Some labels \<Rightarrow> set_field owner_label (JStr user) labels)"

definition inject_label :: "gostring \<Rightarrow> fields option \<Rightarrow> fields res" where
  "inject_label user raw =
     (case raw of
        None \<Rightarrow> Inl (GoPanic ''assignment to entry in nil map'')
      | Some m \<Rightarrow> Inr (set_field ''Labels'' (JObj (owner_labels user m)) m))"

text \<open>Reading a nil map finds no key.\<close>

definition entries :: "fields option \<Rightarrow> fields" where
  "entries raw = (case raw of None \<Rightarrow> [] | Some m \<Rightarrow> m)"

definition check_create_raw ::
  "(gostring \<Rightarrow> gostring) \<Rightarrow> (gostring \<Rightarrow> gostring \<Rightarrow> bool) \<Rightarrow> gostring \<Rightarrow> fields option
     \<Rightarrow> fields res" where
  "check_create_raw resolve allowed user raw =
     res_bind (check_user (entries raw)) (\<lambda>_.
     res_bind (rewrite_host_config resolve allowed user (entries raw)) (\<lambda>raw1.
     res_bind (check_endpoints user raw1) (\<lambda>_.
     inject_label user (map_option (\<lambda>_. raw1) raw))))"

section \<open>The policy\<close>

text \<open>
  What an acceptable body is, stated per field and independently of the order in which the
  code looks: \<open>ok\<close> is the condition on the source of a bind.
\<close>

definition user_ok :: "fields \<Rightarrow> bool" where
  "user_ok raw =
     (case present raw ''User'' of
        None \<Rightarrow> True
      | Some v \<Rightarrow> (case as_str v of None \<Rightarrow> False | Some s \<Rightarrow> \<not> root_user (trim_space s)))"

definition list_ok :: "gostring \<Rightarrow> (json \<Rightarrow> bool) \<Rightarrow> fields \<Rightarrow> bool" where
  "list_ok name ok hc =
     (case present hc name of
        None \<Rightarrow> True
      | Some v \<Rightarrow> (case as_arr v of None \<Rightarrow> False | Some vs \<Rightarrow> list_all ok vs))"

definition bind_ok :: "(gostring \<Rightarrow> bool) \<Rightarrow> json \<Rightarrow> bool" where
  "bind_ok ok b =
     (case as_str b of
        None \<Rightarrow> False
      | Some s \<Rightarrow> ok (hd (split_on CHR '':'' s)))"

definition mount_ok :: "(gostring \<Rightarrow> bool) \<Rightarrow> json \<Rightarrow> bool" where
  "mount_ok ok v =
     (case as_obj v of
        None \<Rightarrow> False
      | Some m \<Rightarrow>
          let t = str_or_empty (field_or_nil m ''Type'')
          in if t = ''bind'' then ok (str_or_empty (field_or_nil m ''Source'')) else t = ''tmpfs'')"

definition extra_host_ok :: "json \<Rightarrow> bool" where
  "extra_host_ok v \<longleftrightarrow> trim_space (str_or_empty v) = ''host.docker.internal:host-gateway''"

definition network_mode_ok :: "gostring \<Rightarrow> fields \<Rightarrow> bool" where
  "network_mode_ok user hc =
     (case present hc ''NetworkMode'' of
        None \<Rightarrow> True
      | Some v \<Rightarrow> (case as_str v of None \<Rightarrow> False | Some s \<Rightarrow> networkAllowedForUser s user))"

definition not_dangerous :: "fields \<Rightarrow> bool" where
  "not_dangerous hc \<longleftrightarrow>
     list_all (\<lambda>f. case field hc f of None \<Rightarrow> True | Some v \<Rightarrow> \<not> isTruthy v)
       dangerousHostConfigFields"

definition host_config_ok :: "(gostring \<Rightarrow> bool) \<Rightarrow> gostring \<Rightarrow> fields \<Rightarrow> bool" where
  "host_config_ok ok user raw =
     (case present raw ''HostConfig'' of
        None \<Rightarrow> True
      | Some v \<Rightarrow>
          (case as_obj v of
             None \<Rightarrow> False
           | Some hc \<Rightarrow>
               not_dangerous hc \<and> list_ok ''ExtraHosts'' extra_host_ok hc
               \<and> network_mode_ok user hc
               \<and> list_ok ''Binds'' (bind_ok ok) hc \<and> list_ok ''Mounts'' (mount_ok ok) hc))"

definition endpoints_ok :: "gostring \<Rightarrow> fields \<Rightarrow> bool" where
  "endpoints_ok user raw =
     (case present raw ''NetworkingConfig'' of
        None \<Rightarrow> True
      | Some nc \<Rightarrow>
          (case as_obj nc of
             None \<Rightarrow> False
           | Some ncMap \<Rightarrow>
               (case present ncMap ''EndpointsConfig'' of
                  None \<Rightarrow> True
                | Some ep \<Rightarrow>
                    (case as_obj ep of
                       None \<Rightarrow> False
                     | Some epMap \<Rightarrow>
                         list_all (\<lambda>(k, _). networkAllowedForUser k user) epMap))))"

definition create_ok :: "(gostring \<Rightarrow> bool) \<Rightarrow> gostring \<Rightarrow> fields \<Rightarrow> bool" where
  "create_ok ok user raw \<longleftrightarrow> user_ok raw \<and> host_config_ok ok user raw \<and> endpoints_ok user raw"

text \<open>Where the owner label stands, and the errors the policy answers with.\<close>

definition owner_of :: "fields \<Rightarrow> gostring option" where
  "owner_of raw =
     (case as_obj (field_or_nil raw ''Labels'') of
        None \<Rightarrow> None
      | Some labels \<Rightarrow> as_str (field_or_nil labels owner_label))"

fun client_error :: "go_error \<Rightarrow> bool" where
  "client_error (CreateError status message) \<longleftrightarrow> status = 400 \<or> status = 403"
| "client_error (GoPanic message) \<longleftrightarrow> False"

definition source_ok ::
  "(gostring \<Rightarrow> gostring) \<Rightarrow> (gostring \<Rightarrow> gostring \<Rightarrow> bool) \<Rightarrow> gostring \<Rightarrow> gostring \<Rightarrow> bool" where
  "source_ok resolve allowed user s \<longleftrightarrow>
     prefix ''/'' s \<and> allowed (resolve s) user \<and> \<not> contains ''docker.sock'' (resolve s)"

text \<open>A source as it leaves the proxy: resolved already, allowed, and not the Docker socket.\<close>

definition final_source ::
  "(gostring \<Rightarrow> gostring) \<Rightarrow> (gostring \<Rightarrow> gostring \<Rightarrow> bool) \<Rightarrow> gostring \<Rightarrow> gostring \<Rightarrow> bool" where
  "final_source resolve allowed user s \<longleftrightarrow>
     validated_source resolve allowed user s \<and> \<not> contains ''docker.sock'' s"

section \<open>The checks decide the policy\<close>

named_theorems check_simps "a check succeeds exactly when its part of the policy holds"
named_theorems check_errors "a check fails with a client error"

lemma check_user_Inr [check_simps]: "check_user raw = Inr u \<longleftrightarrow> user_ok raw"
  by (auto simp: check_user_def user_ok_def Let_def split: option.splits)

lemma dangerous_field_None:
  "dangerous_field hc f = None \<longleftrightarrow> (case field hc f of None \<Rightarrow> True | Some v \<Rightarrow> \<not> isTruthy v)"
  by (auto simp: dangerous_field_def split: option.splits)

lemma check_dangerous_Inr [check_simps]: "check_dangerous hc = Inr u \<longleftrightarrow> not_dangerous hc"
  by (simp only: check_dangerous_def not_dangerous_def guard_Inr first_error_None
      dangerous_field_None list_all_iff)

lemma check_extra_hosts_Inr [check_simps]:
  "check_extra_hosts hc = Inr u \<longleftrightarrow> list_ok ''ExtraHosts'' extra_host_ok hc"
  by (simp add: check_extra_hosts_def list_ok_def guard_Inr first_error_None extra_host_def
      extra_host_ok_def Let_def list_all_iff split: option.split)

lemma check_network_mode_Inr [check_simps]:
  "check_network_mode user hc = Inr u \<longleftrightarrow> network_mode_ok user hc"
  by (simp add: check_network_mode_def network_mode_ok_def split: option.split)

lemma check_endpoints_Inr [check_simps]: "check_endpoints user raw = Inr u \<longleftrightarrow> endpoints_ok user raw"
  by (auto simp: check_endpoints_def endpoints_ok_def guard_Inr first_error_None endpoint_key_def
      list_all_iff split: option.split)

lemma check_source_Inr [check_simps]:
  "check_source resolve allowed user s = Inr r \<longleftrightarrow>
     r = resolve s \<and> allowed (resolve s) user \<and> \<not> contains ''docker.sock'' (resolve s)"
  by (auto simp: check_source_def Let_def)

lemma validateAndRewriteBind_Inr [check_simps]:
  "validateAndRewriteBind resolve allowed user b = Inr c \<longleftrightarrow>
     source_ok resolve allowed user (hd (split_on CHR '':'' b))
     \<and> c = join_with CHR '':'' (resolve (hd (split_on CHR '':'' b)) # tl (split_on CHR '':'' b))"
  by (cases "split_on CHR '':'' b")
    (auto simp: validateAndRewriteBind_def source_ok_def res_bind_Inr check_source_Inr)

lemma validateAndRewriteMount_Inr [check_simps]:
  "validateAndRewriteMount resolve allowed user m = Inr m' \<longleftrightarrow>
     mount_ok (source_ok resolve allowed user) (JObj m)
     \<and> m' = (if str_or_empty (field_or_nil m ''Type'') = ''bind''
             then set_field ''Source'' (JStr (resolve (str_or_empty (field_or_nil m ''Source'')))) m
             else m)"
  by (auto simp: validateAndRewriteMount_def mount_ok_def source_ok_def res_bind_Inr
      check_source_Inr Let_def)

section \<open>The rewritten body\<close>

definition resolved_bind :: "(gostring \<Rightarrow> gostring) \<Rightarrow> json \<Rightarrow> json" where
  "resolved_bind resolve b =
     (let parts = split_on CHR '':'' (str_or_empty b)
      in JStr (join_with CHR '':'' (resolve (hd parts) # tl parts)))"

definition resolved_mount :: "(gostring \<Rightarrow> gostring) \<Rightarrow> json \<Rightarrow> json" where
  "resolved_mount resolve v =
     (case as_obj v of
        None \<Rightarrow> v
      | Some m \<Rightarrow>
          if str_or_empty (field_or_nil m ''Type'') = ''bind''
          then JObj (set_field ''Source''
                 (JStr (resolve (str_or_empty (field_or_nil m ''Source'')))) m)
          else v)"

definition map_field :: "gostring \<Rightarrow> (json \<Rightarrow> json) \<Rightarrow> fields \<Rightarrow> fields" where
  "map_field name f m =
     (case present m name of
        None \<Rightarrow> m
      | Some v \<Rightarrow>
          (case as_arr v of None \<Rightarrow> m | Some vs \<Rightarrow> set_field name (JArr (map f vs)) m))"

definition resolved_host_config :: "(gostring \<Rightarrow> gostring) \<Rightarrow> fields \<Rightarrow> fields" where
  "resolved_host_config resolve raw =
     (case present raw ''HostConfig'' of
        None \<Rightarrow> raw
      | Some v \<Rightarrow>
          (case as_obj v of
             None \<Rightarrow> raw
           | Some hc \<Rightarrow>
               set_field ''HostConfig''
                 (JObj (map_field ''Mounts'' (resolved_mount resolve)
                    (map_field ''Binds'' (resolved_bind resolve) hc))) raw))"

definition labelled :: "gostring \<Rightarrow> fields \<Rightarrow> fields" where
  "labelled user raw = set_field ''Labels'' (JObj (owner_labels user raw)) raw"

lemma bind_entry_Inr [check_simps]:
  "bind_entry resolve allowed user b = Inr c \<longleftrightarrow>
     bind_ok (source_ok resolve allowed user) b \<and> c = resolved_bind resolve b"
  by (cases b) (auto simp: bind_entry_def bind_ok_def resolved_bind_def str_or_empty_def
      res_bind_Inr validateAndRewriteBind_Inr Let_def)

lemma mount_entry_Inr [check_simps]:
  "mount_entry resolve allowed user b = Inr c \<longleftrightarrow>
     mount_ok (source_ok resolve allowed user) b \<and> c = resolved_mount resolve b"
  by (cases b) (auto simp: mount_entry_def mount_ok_def resolved_mount_def
      res_bind_Inr validateAndRewriteMount_Inr Let_def)

lemma res_map_Inr_iff:
  assumes "\<And>x y. f x = Inr y \<longleftrightarrow> ok x \<and> y = g x"
  shows "res_map f xs = Inr ys \<longleftrightarrow> list_all ok xs \<and> ys = map g xs"
  by (induction xs arbitrary: ys) (auto simp: res_bind_Inr assms)

lemma rewrite_list_Inr:
  assumes "\<And>x y. entry x = Inr y \<longleftrightarrow> ok x \<and> y = g x"
  shows "rewrite_list name entry hc = Inr hc' \<longleftrightarrow> list_ok name ok hc \<and> hc' = map_field name g hc"
  by (auto simp: rewrite_list_def list_ok_def map_field_def res_bind_Inr
      res_map_Inr_iff [of entry ok g, OF assms] split: option.split)

lemma present_map_field [json_simps]: "name \<noteq> k \<Longrightarrow> present (map_field name f m) k = present m k"
  by (simp add: map_field_def split: option.split)

lemma field_map_field [json_simps]: "name \<noteq> k \<Longrightarrow> field (map_field name f m) k = field m k"
  by (simp add: map_field_def split: option.split)

lemma list_ok_map_field_other: "name \<noteq> k \<Longrightarrow> list_ok k ok (map_field name f m) = list_ok k ok m"
  by (simp add: list_ok_def present_map_field)

lemma check_host_config_Inr [check_simps]:
  "check_host_config resolve allowed user hc = Inr hc' \<longleftrightarrow>
     not_dangerous hc \<and> list_ok ''ExtraHosts'' extra_host_ok hc \<and> network_mode_ok user hc
     \<and> list_ok ''Binds'' (bind_ok (source_ok resolve allowed user)) hc
     \<and> list_ok ''Mounts'' (mount_ok (source_ok resolve allowed user)) hc
     \<and> hc' = map_field ''Mounts'' (resolved_mount resolve)
                (map_field ''Binds'' (resolved_bind resolve) hc)"
  by (simp add: check_host_config_def res_bind_Inr check_dangerous_Inr check_extra_hosts_Inr
      check_network_mode_Inr rewrite_list_Inr [OF bind_entry_Inr] rewrite_list_Inr [OF mount_entry_Inr]
      list_ok_map_field_other)

lemma rewrite_host_config_Inr [check_simps]:
  "rewrite_host_config resolve allowed user raw = Inr raw' \<longleftrightarrow>
     host_config_ok (source_ok resolve allowed user) user raw
     \<and> raw' = resolved_host_config resolve raw"
  by (auto simp: rewrite_host_config_def host_config_ok_def resolved_host_config_def res_bind_Inr
      check_host_config_Inr split: option.split)

lemma endpoints_ok_resolved [simp]:
  "endpoints_ok user (resolved_host_config resolve raw) = endpoints_ok user raw"
  by (simp add: endpoints_ok_def resolved_host_config_def split: option.split)

lemma check_create_raw_nil:
  "check_create_raw resolve allowed user None = Inl (GoPanic ''assignment to entry in nil map'')"
  by (simp add: check_create_raw_def check_user_def rewrite_host_config_def check_endpoints_def
      inject_label_def entries_def present_def)

lemma check_create_raw_Inr [check_simps]:
  "check_create_raw resolve allowed user raw = Inr out \<longleftrightarrow>
     (case raw of
        None \<Rightarrow> False
      | Some m \<Rightarrow>
          create_ok (source_ok resolve allowed user) user m
          \<and> out = labelled user (resolved_host_config resolve m))"
proof (cases raw)
  case (Some m)
  then show ?thesis
    by (auto simp: check_create_raw_def res_bind_Inr check_user_Inr rewrite_host_config_Inr
        check_endpoints_Inr inject_label_def create_ok_def labelled_def entries_def)
qed (simp add: check_create_raw_nil)

section \<open>Every failure is a client error\<close>

lemma first_error_client:
  "(\<And>x. x \<in> set xs \<Longrightarrow> f x = Some e \<Longrightarrow> client_error e) \<Longrightarrow> first_error f xs = Some e \<Longrightarrow> client_error e"
  using first_error_Some by metis

lemma guard_Inl: "guard x = Inl e \<longleftrightarrow> x = Some e"
  by (cases x) auto

lemma check_user_Inl [check_errors]: "check_user raw = Inl e \<Longrightarrow> client_error e"
  by (auto simp: check_user_def Let_def split: option.splits if_splits)

lemma check_dangerous_Inl [check_errors]: "check_dangerous hc = Inl e \<Longrightarrow> client_error e"
  unfolding check_dangerous_def guard_Inl
  by (erule first_error_client [rotated]) (auto simp: dangerous_field_def split: option.splits if_splits)

lemma check_extra_hosts_Inl [check_errors]: "check_extra_hosts hc = Inl e \<Longrightarrow> client_error e"
  by (auto simp: check_extra_hosts_def guard_Inl extra_host_def Let_def
      split: option.splits if_splits elim!: first_error_client [rotated])

lemma check_network_mode_Inl [check_errors]: "check_network_mode user hc = Inl e \<Longrightarrow> client_error e"
  by (auto simp: check_network_mode_def split: option.splits if_splits)

lemma check_endpoints_Inl [check_errors]: "check_endpoints user raw = Inl e \<Longrightarrow> client_error e"
  by (auto simp: check_endpoints_def guard_Inl endpoint_key_def
      split: option.splits if_splits elim!: first_error_client [rotated])

lemma check_source_Inl [check_errors]:
  "check_source resolve allowed user s = Inl e \<Longrightarrow> client_error e"
  by (auto simp: check_source_def Let_def split: if_splits)

lemma bind_entry_Inl [check_errors]: "bind_entry resolve allowed user b = Inl e \<Longrightarrow> client_error e"
  by (auto simp: bind_entry_def validateAndRewriteBind_def res_bind_Inl
      split: option.splits list.splits if_splits intro: check_source_Inl)

lemma mount_entry_Inl [check_errors]: "mount_entry resolve allowed user b = Inl e \<Longrightarrow> client_error e"
  by (auto simp: mount_entry_def validateAndRewriteMount_def res_bind_Inl Let_def
      split: option.splits if_splits intro: check_source_Inl)

lemma rewrite_list_Inl:
  "rewrite_list name entry hc = Inl e \<Longrightarrow> (\<And>x. entry x = Inl e \<Longrightarrow> client_error e) \<Longrightarrow> client_error e"
  by (auto simp: rewrite_list_def res_bind_Inl split: option.splits dest!: res_map_Inl)

lemma rewrite_host_config_Inl [check_errors]:
  "rewrite_host_config resolve allowed user raw = Inl e \<Longrightarrow> client_error e"
  by (auto simp: rewrite_host_config_def check_host_config_def res_bind_Inl
      split: option.splits dest: check_errors
      elim!: rewrite_list_Inl)

lemma check_create_raw_Inl [check_errors]:
  "check_create_raw resolve allowed user (Some m) = Inl e \<Longrightarrow> client_error e"
  by (auto simp: check_create_raw_def res_bind_Inl inject_label_def dest: check_errors)

section \<open>What leaves the proxy\<close>

lemma owner_of_labelled [simp]: "owner_of (labelled user m) = Some user"
  by (simp add: owner_of_def labelled_def owner_labels_def field_or_nil_def split: option.split)

lemma field_resolved_host_config: "k \<noteq> ''HostConfig'' \<Longrightarrow> field (resolved_host_config resolve m) k = field m k"
  by (simp add: resolved_host_config_def split: option.split)

lemma field_labelled: "k \<noteq> ''Labels'' \<Longrightarrow> field (labelled user m) k = field m k"
  by (simp add: labelled_def)

lemma present_labelled: "k \<noteq> ''Labels'' \<Longrightarrow> present (labelled user m) k = present m k"
  by (simp add: labelled_def)

lemma create_ok_labelled [simp]: "create_ok ok user (labelled u m) = create_ok ok user m"
  by (simp add: create_ok_def user_ok_def host_config_ok_def endpoints_ok_def present_labelled)

lemma list_ok_mono: "list_ok name ok m \<Longrightarrow> (\<And>v. ok v \<Longrightarrow> ok' v) \<Longrightarrow> list_ok name ok' m"
  by (auto simp: list_ok_def list_all_iff split: option.splits)

lemma list_ok_map_field:
  "list_ok name ok m \<Longrightarrow> (\<And>v. ok v \<Longrightarrow> ok' (f v)) \<Longrightarrow> list_ok name ok' (map_field name f m)"
  by (auto simp: list_ok_def map_field_def list_all_iff split: option.splits)

lemma bind_ok_mono: "bind_ok ok v \<Longrightarrow> (\<And>s. ok s \<Longrightarrow> ok' s) \<Longrightarrow> bind_ok ok' v"
  by (auto simp: bind_ok_def split: option.splits)

lemma mount_ok_mono: "mount_ok ok v \<Longrightarrow> (\<And>s. ok s \<Longrightarrow> ok' s) \<Longrightarrow> mount_ok ok' v"
  by (auto simp: mount_ok_def Let_def split: option.splits if_splits)

lemma create_ok_mono:
  assumes "create_ok ok user m" "\<And>s. ok s \<Longrightarrow> ok' s"
  shows "create_ok ok' user m"
proof -
  have "host_config_ok ok' user m" if "host_config_ok ok user m"
    using that
    by (auto simp: host_config_ok_def split: option.splits
        elim!: list_ok_mono bind_ok_mono mount_ok_mono intro: assms(2))
  then show ?thesis using assms(1) by (simp add: create_ok_def)
qed

lemma field_or_nil_set_field [simp]:
  "field_or_nil (set_field k v m) k' = (if k = k' then v else field_or_nil m k')"
  by (simp add: field_or_nil_def)

lemma str_or_empty_JStr [simp]: "str_or_empty (JStr s) = s"
  by (simp add: str_or_empty_def)

lemma mount_ok_resolved:
  assumes "mount_ok ok v" "\<And>s. ok s \<Longrightarrow> ok' (resolve s)"
  shows "mount_ok ok' (resolved_mount resolve v)"
proof (cases "as_obj v")
  case None
  then show ?thesis using assms(1) by (simp add: mount_ok_def)
next
  case (Some m)
  then show ?thesis
    using assms by (auto simp: mount_ok_def resolved_mount_def Let_def split: if_splits)
qed

lemma hd_split_on_join: "hd (split_on c (join_with c (r # rs))) = hd (split_on c r)"
  by (cases rs) (simp_all add: split_on_append_sep split_on_ne)

lemma hd_split_on_free: "CHR '':'' \<notin> set (hd (split_on CHR '':'' b))"
  by (meson hd_in_set split_on_ne split_on_no_sep)

lemma bind_ok_resolved:
  assumes "bind_ok ok v"
    and "\<And>s. ok s \<Longrightarrow> CHR '':'' \<notin> set s \<Longrightarrow> ok' (hd (split_on CHR '':'' (resolve s)))"
  shows "bind_ok ok' (resolved_bind resolve v)"
  using assms(1) assms(2) [OF _ hd_split_on_free]
  by (auto simp: bind_ok_def resolved_bind_def Let_def str_or_empty_def hd_split_on_join
      split: option.splits)

lemma host_config_ok_resolved:
  assumes "host_config_ok ok user m"
    and "\<And>s. ok s \<Longrightarrow> ok' (resolve s)"
    and "\<And>s. ok s \<Longrightarrow> CHR '':'' \<notin> set s \<Longrightarrow> ok' (hd (split_on CHR '':'' (resolve s)))"
  shows "host_config_ok ok' user (resolved_host_config resolve m)"
proof (cases "present m ''HostConfig''")
  case None
  then show ?thesis by (simp add: host_config_ok_def resolved_host_config_def)
next
  case (Some v)
  then obtain hc where v: "v = JObj hc"
    using assms(1) by (cases v) (auto simp: host_config_ok_def)
  let ?b = "map_field ''Binds'' (resolved_bind resolve) hc"
  let ?hc = "map_field ''Mounts'' (resolved_mount resolve) ?b"
  have ok: "not_dangerous hc" "list_ok ''ExtraHosts'' extra_host_ok hc" "network_mode_ok user hc"
    "list_ok ''Binds'' (bind_ok ok) hc" "list_ok ''Mounts'' (mount_ok ok) hc"
    using assms(1) Some v by (auto simp: host_config_ok_def)
  have "not_dangerous ?hc"
    using ok(1) by (simp add: not_dangerous_def dangerousHostConfigFields_def field_map_field)
  moreover have "list_ok ''ExtraHosts'' extra_host_ok ?hc" "network_mode_ok user ?hc"
    using ok(2,3) by (simp_all add: list_ok_map_field_other network_mode_ok_def present_map_field)
  moreover have "list_ok ''Binds'' (bind_ok ok') ?hc"
    using ok(4) bind_ok_resolved [of ok _ ok' resolve] assms(2,3)
    by (simp add: list_ok_map_field_other list_ok_map_field)
  moreover have "list_ok ''Mounts'' (mount_ok ok') ?hc"
    using ok(5) mount_ok_resolved [of ok _ ok' resolve] assms(2)
    by (intro list_ok_map_field [of _ "mount_ok ok"]) (simp_all add: list_ok_map_field_other)
  ultimately show ?thesis
    using Some v by (simp add: host_config_ok_def resolved_host_config_def)
qed

lemma create_ok_resolved:
  assumes "create_ok ok user m"
    and "\<And>s. ok s \<Longrightarrow> ok' (resolve s)"
    and "\<And>s. ok s \<Longrightarrow> CHR '':'' \<notin> set s \<Longrightarrow> ok' (hd (split_on CHR '':'' (resolve s)))"
  shows "create_ok ok' user (labelled u (resolved_host_config resolve m))"
proof -
  have "user_ok (resolved_host_config resolve m) = user_ok m"
    by (simp add: user_ok_def present_def field_resolved_host_config)
  then show ?thesis
    unfolding create_ok_labelled
    using assms host_config_ok_resolved [of ok user m ok' resolve] by (simp add: create_ok_def)
qed

definition keeps_colon_free :: "(gostring \<Rightarrow> gostring) \<Rightarrow> bool" where
  "keeps_colon_free resolve \<longleftrightarrow>
     (\<forall>s. prefix ''/'' s \<longrightarrow> CHR '':'' \<notin> set s \<longrightarrow> CHR '':'' \<notin> set (resolve s))"

text \<open>A source as it is read back from a bind: all of an acceptable one, or what stands before a colon in
  it.\<close>

definition cut_source :: "(gostring \<Rightarrow> bool) \<Rightarrow> gostring \<Rightarrow> bool" where
  "cut_source ok s \<longleftrightarrow> ok s \<or> (\<exists>t. ok t \<and> prefix (s @ '':'') t)"

lemma cut_source_hd: "ok t \<Longrightarrow> cut_source ok (hd (split_on CHR '':'' t))"
proof (cases "CHR '':'' \<in> set t")
  case True
  then obtain a b where t: "t = a @ CHR '':'' # b" "CHR '':'' \<notin> set a" by (meson split_list_first)
  assume "ok t"
  moreover have "hd (split_on CHR '':'' t) = a"
    using t by (simp add: split_on_append_sep split_on_ne split_on_free)
  ultimately show ?thesis using t(1) by (auto simp: cut_source_def prefix_def)
qed (simp add: cut_source_def split_on_free)

lemma map_field_id:
  "list_ok name ok m \<Longrightarrow> (\<And>v. ok v \<Longrightarrow> f v = v) \<Longrightarrow> map_field name f m = m"
proof (cases "present m name")
  case (Some v)
  assume "list_ok name ok m" and f: "\<And>v. ok v \<Longrightarrow> f v = v"
  then obtain vs where vs: "v = JArr vs" "list_all ok vs"
    using Some by (cases v) (auto simp: list_ok_def)
  then have "map f vs = vs" by (auto simp: list_all_iff f intro: map_idI)
  moreover have "field m name = Some (JArr vs)" using Some vs by (simp add: present_Some)
  ultimately show ?thesis using Some vs by (simp add: map_field_def update_triv)
qed (simp add: map_field_def)

lemma labelled_id:
  assumes "owner_of m = Some user"
  shows "labelled user m = m"
proof -
  obtain l where l: "as_obj (field_or_nil m ''Labels'') = Some l"
    "as_str (field_or_nil l owner_label) = Some user"
    using assms by (auto simp: owner_of_def split: option.splits)
  then have "field m ''Labels'' = Some (JObj l)" "field l owner_label = Some (JStr user)"
    by (simp_all add: field_or_nil_def json_simps split: option.splits)
  then show ?thesis by (simp add: labelled_def owner_labels_def l update_triv)
qed

context path_policy
begin

lemma final_source_resolve:
  "source_ok resolve allowed user s \<Longrightarrow> final_source resolve allowed user (resolve s)"
  by (simp add: source_ok_def final_source_def validated_resolve)

lemma source_ok_final:
  "final_source resolve allowed user s \<Longrightarrow> source_ok resolve allowed user s"
  by (simp add: source_ok_def final_source_def validated_source_def)

lemma accepted_final:
  assumes "check_create_raw resolve allowed user (Some m) = Inr out" "keeps_colon_free resolve"
  shows "create_ok (final_source resolve allowed user) user out"
proof -
  have "create_ok (source_ok resolve allowed user) user m"
    and out: "out = labelled user (resolved_host_config resolve m)"
    using assms(1) by (simp_all add: check_create_raw_Inr)
  then show ?thesis
    unfolding out using assms(2)
    by (intro create_ok_resolved [of "source_ok resolve allowed user"])
      (auto simp: keeps_colon_free_def source_ok_def split_on_free intro: final_source_resolve)
qed

lemma accepted_cut:
  assumes "check_create_raw resolve allowed user (Some m) = Inr out"
  shows "create_ok (cut_source (final_source resolve allowed user)) user out"
proof -
  have m: "create_ok (source_ok resolve allowed user) user m"
    and out: "out = labelled user (resolved_host_config resolve m)"
    using assms by (simp_all add: check_create_raw_Inr)
  show ?thesis
    unfolding out
    by (rule create_ok_resolved [OF m])
      (simp add: cut_source_def final_source_resolve, blast intro: final_source_resolve cut_source_hd)
qed

lemma final_bind_id: "bind_ok (final_source resolve allowed user) v \<Longrightarrow> resolved_bind resolve v = v"
  by (auto simp: bind_ok_def resolved_bind_def final_source_def validated_source_def json_simps
      Let_def str_or_empty_def split: option.splits)

lemma final_mount_id:
  assumes "mount_ok (final_source resolve allowed user) v"
  shows "resolved_mount resolve v = v"
proof (cases "as_obj v")
  case None
  then show ?thesis by (simp add: resolved_mount_def)
next
  case (Some m)
  show ?thesis
  proof (cases "str_or_empty (field_or_nil m ''Type'') = ''bind''")
    case True
    then have src: "final_source resolve allowed user (str_or_empty (field_or_nil m ''Source''))"
      using assms Some by (simp add: mount_ok_def)
    then have "str_or_empty (field_or_nil m ''Source'') \<noteq> []"
      by (auto simp: final_source_def validated_source_def)
    then obtain s where "field m ''Source'' = Some (JStr s)" "str_or_empty (field_or_nil m ''Source'') = s"
      by (auto simp: str_or_empty_def field_or_nil_def json_simps split: option.splits)
    then show ?thesis
      using src Some True
      by (simp add: resolved_mount_def final_source_def validated_source_def update_triv json_simps)
  qed (use Some in \<open>simp add: resolved_mount_def\<close>)
qed

lemma final_host_config_id:
  assumes "host_config_ok (final_source resolve allowed u) user m"
  shows "resolved_host_config resolve m = m"
proof (cases "present m ''HostConfig''")
  case (Some v)
  then obtain hc where v: "v = JObj hc"
    using assms by (cases v) (auto simp: host_config_ok_def)
  then have ok: "list_ok ''Binds'' (bind_ok (final_source resolve allowed u)) hc"
    "list_ok ''Mounts'' (mount_ok (final_source resolve allowed u)) hc"
    using assms Some by (auto simp: host_config_ok_def)
  have "map_field ''Mounts'' (resolved_mount resolve)
      (map_field ''Binds'' (resolved_bind resolve) hc) = hc"
    by (simp add: map_field_id [OF ok(1) final_bind_id] map_field_id [OF ok(2) final_mount_id])
  moreover have "field m ''HostConfig'' = Some (JObj hc)" using Some v by (simp add: present_Some)
  ultimately show ?thesis
    using Some v by (simp add: resolved_host_config_def update_triv)
qed (simp add: resolved_host_config_def)

lemma final_fixed:
  assumes "create_ok (final_source resolve allowed user) user m" "owner_of m = Some user"
  shows "check_create_raw resolve allowed user (Some m) = Inr m"
proof -
  have "resolved_host_config resolve m = m"
    using assms(1) by (intro final_host_config_id [where u = user and user = user])
      (simp add: create_ok_def)
  moreover have "labelled user m = m"
    by (rule labelled_id [OF assms(2)])
  moreover have "create_ok (source_ok resolve allowed user) user m"
    using assms(1) by (rule create_ok_mono) (rule source_ok_final)
  ultimately show ?thesis by (simp add: check_create_raw_Inr)
qed

end

end
