(* ===== verification/NetworkCreate.thy ===== *)
theory NetworkCreate
  imports Create
begin

text \<open>
  \<open>internal/proxy/network_create.go\<close> on decoded bodies: the driver, name and \<open>ConfigFrom\<close>
  checks of a network-create request and the injection of the owner label.
  \<open>check_network_raw\<close> is \<open>CheckNetworkCreate\<close> between \<open>json.Unmarshal\<close> and \<open>json.Marshal\<close>.
\<close>

section \<open>The checks\<close>

definition check_driver :: "fields \<Rightarrow> unit res" where
  "check_driver raw =
     (case present raw ''Driver'' of
        None \<Rightarrow> Inr ()
      | Some v \<Rightarrow>
          (case as_str v of
             None \<Rightarrow> reject 400 ''isolator: invalid Driver type''
           | Some drv \<Rightarrow>
               if drv \<noteq> [] \<and> drv \<noteq> ''bridge''
               then reject 403 (''isolator: network driver '' @ quoted drv
                      @ '' not allowed (use bridge)'')
               else Inr ()))"

definition own_network :: "gostring \<Rightarrow> gostring \<Rightarrow> bool" where
  "own_network user name \<longleftrightarrow> name = ''iso-'' @ user \<or> prefix (''iso-'' @ user @ ''-'') name"

definition check_name :: "gostring \<Rightarrow> fields \<Rightarrow> unit res" where
  "check_name user raw =
     (let name = str_or_empty (field_or_nil raw ''Name'')
      in if name = [] then reject 403 ''isolator: network name required''
         else if prefix ''iso-'' name \<and> \<not> own_network user name
         then reject 403 (''isolator: network name '' @ quoted name @ '' reserved for another user'')
         else Inr ())"

definition check_config_from :: "fields \<Rightarrow> unit res" where
  "check_config_from raw =
     (case present raw ''ConfigFrom'' of
        None \<Rightarrow> Inr ()
      | Some v \<Rightarrow>
          (case as_obj v of
             Some cf \<Rightarrow>
               if cf \<noteq> [] then reject 403 ''isolator: ConfigFrom is not allowed'' else Inr ()
           | None \<Rightarrow> reject 403 ''isolator: ConfigFrom is not allowed''))"

definition check_network_raw :: "gostring \<Rightarrow> fields option \<Rightarrow> fields res" where
  "check_network_raw user raw =
     res_bind (check_driver (entries raw)) (\<lambda>_.
     res_bind (check_name user (entries raw)) (\<lambda>_.
     res_bind (check_config_from (entries raw)) (\<lambda>_.
     inject_label user raw)))"

section \<open>The policy\<close>

definition driver_ok :: "fields \<Rightarrow> bool" where
  "driver_ok raw =
     (case present raw ''Driver'' of
        None \<Rightarrow> True
      | Some v \<Rightarrow> as_str v = Some [] \<or> as_str v = Some ''bridge'')"

definition name_ok :: "gostring \<Rightarrow> fields \<Rightarrow> bool" where
  "name_ok user raw =
     (case field raw ''Name'' of
        None \<Rightarrow> False
      | Some v \<Rightarrow>
          (case as_str v of
             None \<Rightarrow> False
           | Some name \<Rightarrow> name \<noteq> [] \<and> (if prefix ''iso-'' name then own_network user name else True)))"

definition config_from_ok :: "fields \<Rightarrow> bool" where
  "config_from_ok raw =
     (case present raw ''ConfigFrom'' of None \<Rightarrow> True | Some v \<Rightarrow> as_obj v = Some [])"

definition network_ok :: "gostring \<Rightarrow> fields \<Rightarrow> bool" where
  "network_ok user raw \<longleftrightarrow> driver_ok raw \<and> name_ok user raw \<and> config_from_ok raw"

lemma check_driver_Inr [check_simps]: "check_driver raw = Inr u \<longleftrightarrow> driver_ok raw"
  by (auto simp: check_driver_def driver_ok_def split: option.splits)

lemma check_name_Inr [check_simps]: "check_name user raw = Inr u \<longleftrightarrow> name_ok user raw"
  by (auto simp: check_name_def name_ok_def Let_def str_or_empty_def field_or_nil_def
      split: option.splits)

lemma check_config_from_Inr [check_simps]: "check_config_from raw = Inr u \<longleftrightarrow> config_from_ok raw"
  by (auto simp: check_config_from_def config_from_ok_def split: option.splits)

lemma check_network_raw_Inr [check_simps]:
  "check_network_raw user raw = Inr out \<longleftrightarrow>
     (case raw of None \<Rightarrow> False | Some m \<Rightarrow> network_ok user m \<and> out = labelled user m)"
proof (cases raw)
  case None
  have "\<not> name_ok user []" by (simp add: name_ok_def)
  then show ?thesis
    using None by (auto simp: check_network_raw_def res_bind_Inr check_simps entries_def)
next
  case (Some m)
  then show ?thesis
    by (auto simp: check_network_raw_def res_bind_Inr check_simps entries_def inject_label_def
        labelled_def network_ok_def)
qed

lemma check_network_raw_Inl [check_errors]:
  assumes "check_network_raw user raw = Inl e"
  shows "client_error e"
proof (cases raw)
  case None
  have "check_name user [] = reject 403 ''isolator: network name required''"
    by (simp add: check_name_def str_or_empty_def field_or_nil_def)
  then show ?thesis
    using assms None by (auto simp: check_network_raw_def check_driver_def entries_def present_def)
next
  case (Some m)
  then show ?thesis
    using assms
    by (auto simp: check_network_raw_def res_bind_Inl inject_label_def check_driver_def
        check_name_def check_config_from_def Let_def split: option.splits if_splits)
qed

lemma network_ok_labelled [simp]: "network_ok user (labelled u m) = network_ok user m"
  by (simp add: network_ok_def driver_ok_def name_ok_def config_from_ok_def present_labelled
      field_labelled)

end
