(* ===== verification/Utf8.thy ===== *)
theory Utf8
  imports Prelude
begin

text \<open>
  The part of \<open>unicode/utf8\<close> that \<open>encoding/json\<close> relies on: decoding the first rune of a
  byte string, where an invalid byte gives U+FFFD and a width of one, encoding a rune, and
  the coercion of arbitrary bytes to well-formed UTF-8 that every string undergoes.
\<close>

abbreviation byte_val :: "char \<Rightarrow> nat" where
  "byte_val c \<equiv> of_char c"

definition rune_error :: nat where
  "rune_error = 0xFFFD"

definition cont :: "nat \<Rightarrow> bool" where
  "cont b \<longleftrightarrow> 0x80 \<le> b \<and> b \<le> 0xBF"

text \<open>\<open>utf8.DecodeRune\<close>: the rune and its width.\<close>

fun decode_rune :: "gostring \<Rightarrow> nat \<times> nat" where
  "decode_rune [] = (rune_error, 0)"
| "decode_rune (c # s) =
     (let b0 = byte_val c;
          b1 = (case s of d # _ \<Rightarrow> byte_val d | _ \<Rightarrow> 0);
          b2 = (case s of _ # d # _ \<Rightarrow> byte_val d | _ \<Rightarrow> 0);
          b3 = (case s of _ # _ # d # _ \<Rightarrow> byte_val d | _ \<Rightarrow> 0)
      in if b0 < 0x80 then (b0, 1)
         else if 0xC2 \<le> b0 \<and> b0 \<le> 0xDF \<and> cont b1
         then ((b0 - 0xC0) * 64 + (b1 - 0x80), 2)
         else if 0xE0 \<le> b0 \<and> b0 \<le> 0xEF \<and> cont b1 \<and> cont b2
            \<and> (b0 = 0xE0 \<longrightarrow> 0xA0 \<le> b1) \<and> (b0 = 0xED \<longrightarrow> b1 \<le> 0x9F)
         then ((b0 - 0xE0) * 4096 + (b1 - 0x80) * 64 + (b2 - 0x80), 3)
         else if 0xF0 \<le> b0 \<and> b0 \<le> 0xF4 \<and> cont b1 \<and> cont b2 \<and> cont b3
            \<and> (b0 = 0xF0 \<longrightarrow> 0x90 \<le> b1) \<and> (b0 = 0xF4 \<longrightarrow> b1 \<le> 0x8F)
         then ((b0 - 0xF0) * 262144 + (b1 - 0x80) * 4096 + (b2 - 0x80) * 64 + (b3 - 0x80), 4)
         else (rune_error, 1))"

text \<open>\<open>utf8.EncodeRune\<close>.\<close>

definition scalar :: "nat \<Rightarrow> bool" where
  "scalar r \<longleftrightarrow> r \<le> 0x10FFFF \<and> \<not> (0xD800 \<le> r \<and> r \<le> 0xDFFF)"

definition encode_scalar :: "nat \<Rightarrow> gostring" where
  "encode_scalar r =
     (if r < 0x80 then [byte r]
      else if r < 0x800 then [byte (0xC0 + r div 64), byte (0x80 + r mod 64)]
      else if r < 0x10000
      then [byte (0xE0 + r div 4096), byte (0x80 + r div 64 mod 64), byte (0x80 + r mod 64)]
      else [byte (0xF0 + r div 262144), byte (0x80 + r div 4096 mod 64),
            byte (0x80 + r div 64 mod 64), byte (0x80 + r mod 64)])"

definition encode_rune :: "nat \<Rightarrow> gostring" where
  "encode_rune r = encode_scalar (if scalar r then r else rune_error)"

text \<open>Evaluation compares code points as integers.\<close>

lemma scalar_code [code]:
  "scalar r \<longleftrightarrow> int r \<le> 0x10FFFF \<and> \<not> (0xD800 \<le> int r \<and> int r \<le> 0xDFFF)"
  unfolding scalar_def by linarith

lemma encode_scalar_code [code]:
  "encode_scalar r =
     (let i = int r
      in if i < 0x80 then [byte r]
         else if i < 0x800 then [byte (nat (0xC0 + i div 64)), byte (nat (0x80 + i mod 64))]
         else if i < 0x10000
         then [byte (nat (0xE0 + i div 4096)), byte (nat (0x80 + i div 64 mod 64)),
               byte (nat (0x80 + i mod 64))]
         else [byte (nat (0xF0 + i div 262144)), byte (nat (0x80 + i div 4096 mod 64)),
               byte (nat (0x80 + i div 64 mod 64)), byte (nat (0x80 + i mod 64))])"
  by (simp add: encode_scalar_def Let_def nat_add_distrib nat_mod_distrib nat_div_distrib)

declare decode_rune.simps(2) [simp del]

lemma decode_rune_width: "s \<noteq> [] \<Longrightarrow> 1 \<le> snd (decode_rune s) \<and> snd (decode_rune s) \<le> length s"
  by (cases s; cases "tl s"; cases "tl (tl s)"; cases "tl (tl (tl s))")
    (simp_all add: decode_rune.simps(2) Let_def cont_def)

lemma decode_rune_progress: "s \<noteq> [] \<Longrightarrow> decode_rune s = (r, n) \<Longrightarrow> 0 < n \<and> n \<le> length s"
  using decode_rune_width [of s] by simp

lemma decode_rune_ascii: "byte_val c < 0x80 \<Longrightarrow> decode_rune (c # s) = (byte_val c, 1)"
  by (simp add: decode_rune.simps(2))

lemma encode_scalar_high:
  "0x80 \<le> r \<Longrightarrow> r \<le> 0x10FFFF \<Longrightarrow> c \<in> set (encode_scalar r) \<Longrightarrow> 0x80 \<le> byte_val c"
  by (auto simp: encode_scalar_def split: if_splits)

text \<open>Decoding what was encoded.\<close>

lemma byte_val_cont [simp]: "byte_val (byte (0x80 + n mod 64)) = 0x80 + n mod 64"
  by (rule of_char_byte) (simp add: less_le_trans [of _ 64])

lemma cont_mod [simp]: "cont (0x80 + n mod 64)"
  by (simp add: cont_def)

lemma base64:
  fixes r :: nat
  shows "r div 4096 * 4096 + r div 64 mod 64 * 64 + r mod 64 = r"
    and "r div 4096 * 64 + r div 64 mod 64 = r div 64"
    and "r div 64 * 64 + r mod 64 = r" "r mod 64 < 64" "r div 64 mod 64 < 64"
proof -
  have e: "r div 4096 = r div 64 div 64" by (simp add: div_mult2_eq [symmetric])
  show "r div 4096 * 64 + r div 64 mod 64 = r div 64" unfolding e by simp
  moreover show "r div 64 * 64 + r mod 64 = r" by simp
  ultimately show "r div 4096 * 4096 + r div 64 mod 64 * 64 + r mod 64 = r" by linarith
qed simp_all

lemma decode_encode:
  assumes "scalar r"
  shows "decode_rune (encode_scalar r @ t) = (r, length (encode_scalar r))"
proof -
  consider "r < 0x80" | "0x80 \<le> r" "r < 0x800" | "0x800 \<le> r" "r < 0x10000" | "0x10000 \<le> r"
    by linarith
  then show ?thesis
  proof cases
    case 1
    then show ?thesis by (simp add: encode_scalar_def decode_rune.simps(2))
  next
    case 2
    then have "r div 64 < 32" "2 \<le> r div 64" by auto
    moreover have "r div 64 * 64 + r mod 64 = r" by simp
    ultimately show ?thesis
      using 2 by (simp add: encode_scalar_def decode_rune.simps(2) Let_def)
  next
    case 3
    note q = base64 [of r]
    have "r div 4096 < 16" "0x20 \<le> r div 64"
      using 3 div_le_mono [of "0x800" r 64] by auto
    moreover have "r div 4096 = 0 \<longrightarrow> 0x20 \<le> r div 64 mod 64"
      using calculation(2) q by linarith
    moreover have "r div 4096 = 13 \<longrightarrow> r div 64 mod 64 \<le> 0x1F"
      using q assms unfolding scalar_def by linarith
    ultimately show ?thesis
      using 3 q(1,2) by (simp add: encode_scalar_def decode_rune.simps(2) Let_def)
  next
    case 4
    note q = base64 [of r] base64 [of "r div 64"]
    have q4: "r div 64 div 64 = r div 4096" "r div 64 div 4096 = r div 262144"
      by (simp_all add: div_mult2_eq [symmetric])
    have "r div 262144 \<le> 4" "0x10 \<le> r div 4096"
      using 4 assms div_le_mono [of "0x10000" r 4096] by (auto simp: scalar_def)
    moreover have "r div 262144 = 0 \<longrightarrow> 0x10 \<le> r div 4096 mod 64"
      using calculation(2) q unfolding q4 by linarith
    moreover have "r div 262144 = 4 \<longrightarrow> r div 4096 mod 64 \<le> 0xF"
      using q assms unfolding scalar_def q4 by linarith
    moreover have "r div 262144 * 262144 + r div 4096 mod 64 * 4096 + r div 64 mod 64 * 64
        + r mod 64 = r"
      using q unfolding q4 by linarith
    ultimately show ?thesis
      using 4 by (simp add: encode_scalar_def decode_rune.simps(2) Let_def)
  qed
qed

section \<open>Well-formed strings\<close>

text \<open>Coercion replaces every invalid byte by U+FFFD.\<close>

function coerce_utf8 :: "gostring \<Rightarrow> gostring" where
  "coerce_utf8 s =
     (if s = [] then []
      else case decode_rune s of
             (r, n) \<Rightarrow> encode_rune r @ coerce_utf8 (drop n s))"
  by pat_completeness auto
termination
  by (relation "measure length") (auto dest: decode_rune_progress [OF _ sym])

declare coerce_utf8.simps [simp del]

lemma coerce_utf8_Nil [simp]: "coerce_utf8 [] = []"
  by (simp add: coerce_utf8.simps)

inductive valid_utf8 :: "gostring \<Rightarrow> bool" where
  valid_Nil [simp]: "valid_utf8 []"
| valid_rune: "scalar r \<Longrightarrow> valid_utf8 t \<Longrightarrow> valid_utf8 (encode_scalar r @ t)"

lemma scalar_error [simp]: "scalar rune_error"
  by (simp add: scalar_def rune_error_def)

lemma encode_rune_scalar: "\<exists>r'. scalar r' \<and> encode_rune r = encode_scalar r'"
  using scalar_error unfolding encode_rune_def by (cases "scalar r") metis+

lemma valid_encode_rune: "valid_utf8 t \<Longrightarrow> valid_utf8 (encode_rune r @ t)"
  using encode_rune_scalar [of r] by (auto intro: valid_rune)

lemma valid_coerce [simp]: "valid_utf8 (coerce_utf8 s)"
proof (induction s rule: coerce_utf8.induct)
  case (1 s)
  show ?case
  proof (cases "s = []")
    case False
    obtain r n where "decode_rune s = (r, n)" by fastforce
    then show ?thesis
      using 1 [of r n] False by (subst coerce_utf8.simps) (simp add: valid_encode_rune)
  qed simp
qed

lemma encode_scalar_ne [simp]: "encode_scalar r \<noteq> []"
  by (simp add: encode_scalar_def)

lemma coerce_encode: "scalar r \<Longrightarrow> coerce_utf8 (encode_scalar r @ t) = encode_scalar r @ coerce_utf8 t"
  by (subst coerce_utf8.simps) (simp add: decode_encode encode_rune_def)

lemma coerce_valid [simp]: "valid_utf8 s \<Longrightarrow> coerce_utf8 s = s"
  by (induction rule: valid_utf8.induct) (simp_all add: coerce_encode)

lemma valid_utf8_iff: "valid_utf8 s \<longleftrightarrow> coerce_utf8 s = s"
  using valid_coerce [of s] coerce_valid [of s] by metis

lemma valid_append [intro]: "valid_utf8 s \<Longrightarrow> valid_utf8 t \<Longrightarrow> valid_utf8 (s @ t)"
  by (induction rule: valid_utf8.induct) (auto intro: valid_rune)

lemma valid_ascii_Cons [simp]: "byte_val c < 0x80 \<Longrightarrow> valid_utf8 (c # t) \<longleftrightarrow> valid_utf8 t"
proof
  assume c: "byte_val c < 0x80"
  have e: "encode_scalar (byte_val c) = [c]" using c by (simp add: encode_scalar_def)
  show "valid_utf8 (c # t)" if "valid_utf8 t"
    using valid_rune [of "byte_val c", OF _ that] c e by (simp add: scalar_def)
  show "valid_utf8 t" if "valid_utf8 (c # t)"
    using that unfolding valid_utf8_iff
    by (subst (asm) coerce_utf8.simps)
      (use c e in \<open>simp add: decode_rune_ascii encode_rune_def scalar_def\<close>)
qed

lemma valid_ascii: "list_all (\<lambda>c. byte_val c < 0x80) s \<Longrightarrow> valid_utf8 s"
  by (induction s) auto

lemma valid_split_ascii:
  assumes "valid_utf8 s" "s = a @ c # b" "byte_val c < 0x80"
  shows "valid_utf8 a \<and> valid_utf8 b"
  using assms
proof (induction arbitrary: a rule: valid_utf8.induct)
  case (valid_rune r t)
  from valid_rune.prems(1) consider (inside) d where "encode_scalar r @ d = a" "t = d @ c # b"
    | (over) d where "encode_scalar r = a @ d" "d @ t = c # b"
    by (auto simp: append_eq_append_conv2)
  then show ?case
  proof cases
    case inside
    then show ?thesis using valid_rune.IH [of d] valid_rune.hyps assms(3)
      by (auto intro: valid_utf8.valid_rune)
  next
    case over
    show ?thesis
    proof (cases d)
      case Nil
      then show ?thesis
        using over valid_rune.hyps assms(3) valid_utf8.valid_rune [of r "[]"] by simp
    next
      case (Cons e d')
      then have "c \<in> set (encode_scalar r)" using over by auto
      then have "r < 0x80"
        using encode_scalar_high [of r c] assms(3) valid_rune.hyps(1)
        by (meson leD le_less_linear scalar_def)
      then have "a = [] \<and> d' = []" using over Cons by (cases a) (auto simp: encode_scalar_def)
      then show ?thesis using over Cons valid_rune.hyps by simp
    qed
  qed
qed simp

lemma valid_split_on: "valid_utf8 s \<Longrightarrow> byte_val sep < 0x80 \<Longrightarrow> list_all valid_utf8 (split_on sep s)"
proof (induction "length s" arbitrary: s rule: less_induct)
  case less
  show ?case
  proof (cases "sep \<in> set s")
    case True
    then obtain a b where s: "s = a @ sep # b" "sep \<notin> set a"
      by (meson split_list_first)
    then have "valid_utf8 a" "valid_utf8 b"
      using valid_split_ascii [OF less.prems(1) s(1) less.prems(2)] by auto
    then show ?thesis using less.hyps [of b] less.prems s by (simp add: split_on_free_sep)
  next
    case False
    then show ?thesis using less.prems by (simp add: split_on_free)
  qed
qed

lemma valid_join_with:
  "list_all valid_utf8 ws \<Longrightarrow> byte_val sep < 0x80 \<Longrightarrow> valid_utf8 (join_with sep ws)"
  by (induction sep ws rule: join_with.induct) auto

end
