(* ===== verification/Codec.thy ===== *)
theory Codec
  imports Json Utf8 "HOL-Library.Multiset" "HOL-Library.List_Lexorder" "HOL-Library.Char_ord"
begin

text \<open>
  \<open>encoding/json\<close> as the proxy uses it: \<open>json.Unmarshal\<close> into \<open>map[string]interface{}\<close> and
  \<open>[]map[string]interface{}\<close> (grammar, nesting limit, escapes, coercion of strings to UTF-8,
  last duplicate key wins) and \<open>json.Marshal\<close> of such values (sorted keys, HTML-safe escapes,
  shortest numbers).  The main fact is the round trip: what \<open>Marshal\<close> prints,
  \<open>Unmarshal\<close> reads as the same value with the keys in order.
\<close>

section \<open>Strings\<close>

definition hex_digit :: "nat \<Rightarrow> char" where
  "hex_digit n = ''0123456789abcdef'' ! n"

definition hex_val :: "char \<Rightarrow> nat option" where
  "hex_val c =
     (let b = byte_val c
      in if 48 \<le> b \<and> b \<le> 57 then Some (b - 48)
         else if 97 \<le> b \<and> b \<le> 102 then Some (b - 87)
         else if 65 \<le> b \<and> b \<le> 70 then Some (b - 55)
         else None)"

definition hex4 :: "gostring \<Rightarrow> nat option" where
  "hex4 s =
     (case s of
        a # b # c # d # _ \<Rightarrow>
          (case (hex_val a, hex_val b, hex_val c, hex_val d) of
             (Some w, Some x, Some y, Some z) \<Rightarrow> Some (((w * 16 + x) * 16 + y) * 16 + z)
           | _ \<Rightarrow> None)
      | _ \<Rightarrow> None)"

text \<open>The one-letter escapes.\<close>

definition simple_escapes :: "(char \<times> char) list" where
  "simple_escapes =
     [(dquote, dquote), (backslash, backslash), (CHR ''/'', CHR ''/''), (CHR ''b'', CHR 0x08),
      (CHR ''f'', CHR 0x0C), (CHR ''n'', newline), (CHR ''r'', carriage), (CHR ''t'', CHR 0x09)]"

text \<open>The scanner: the raw text up to the closing quote, and what follows it.\<close>

fun scan_string :: "gostring \<Rightarrow> (gostring \<times> gostring) option" where
  "scan_string [] = None"
| "scan_string (c # s) =
     (if c = dquote then Some ([], s)
      else if c = backslash then
        (case s of
           [] \<Rightarrow> None
         | e # s' \<Rightarrow>
             if e = CHR ''u'' then
               (if hex4 s' = None then None
                else case scan_string s' of
                       None \<Rightarrow> None
                     | Some (w, t) \<Rightarrow> Some (c # e # w, t))
             else if map_of simple_escapes e = None then None
             else case scan_string s' of
                    None \<Rightarrow> None
                  | Some (w, t) \<Rightarrow> Some (c # e # w, t))
      else if byte_val c < 0x20 then None
      else case scan_string s of None \<Rightarrow> None | Some (w, t) \<Rightarrow> Some (c # w, t))"

text \<open>\<open>unquote\<close>: escapes, surrogate pairs, and coercion of everything else to UTF-8.\<close>

definition surrogate :: "nat \<Rightarrow> bool" where
  "surrogate r \<longleftrightarrow> 0xD800 \<le> r \<and> r < 0xE000"

lemma surrogate_code [code]: "surrogate r \<longleftrightarrow> 0xD800 \<le> int r \<and> int r < 0xE000"
  unfolding surrogate_def by linarith

definition pair_rune :: "nat \<Rightarrow> nat \<Rightarrow> nat option" where
  "pair_rune r1 r2 =
     (if 0xD800 \<le> r1 \<and> r1 < 0xDC00 \<and> 0xDC00 \<le> r2 \<and> r2 < 0xE000
      then Some ((r1 - 0xD800) * 1024 + (r2 - 0xDC00) + 0x10000) else None)"

definition next_u :: "gostring \<Rightarrow> nat option" where
  "next_u s = (case s of a # b # t \<Rightarrow> if a = backslash \<and> b = CHR ''u'' then hex4 t else None | _ \<Rightarrow> None)"

function unquote :: "gostring \<Rightarrow> gostring" where
  "unquote [] = []"
| "unquote (c # s) =
     (if c = backslash then
        (case s of
           [] \<Rightarrow> []
         | e # s' \<Rightarrow>
             if e = CHR ''u'' then
               (case hex4 s' of
                  None \<Rightarrow> []
                | Some r \<Rightarrow>
                    if surrogate r then
                      (case next_u (drop 4 s') of
                         None \<Rightarrow> encode_rune rune_error @ unquote (drop 4 s')
                       | Some r2 \<Rightarrow>
                           (case pair_rune r r2 of
                              None \<Rightarrow> encode_rune rune_error @ unquote (drop 4 s')
                            | Some p \<Rightarrow> encode_rune p @ unquote (drop 10 s')))
                    else encode_rune r @ unquote (drop 4 s'))
             else case map_of simple_escapes e of
                    None \<Rightarrow> []
                  | Some d \<Rightarrow> d # unquote s')
      else case decode_rune (c # s) of
             (r, n) \<Rightarrow> encode_rune r @ unquote (drop (n - 1) s))"
  by pat_completeness auto
termination by (relation "measure length") auto

declare unquote.simps(2) [simp del]

text \<open>\<open>appendString\<close> with HTML escaping.\<close>

definition u_escape :: "nat \<Rightarrow> gostring" where
  "u_escape r =
     [backslash, CHR ''u'', hex_digit (r div 4096 mod 16), hex_digit (r div 256 mod 16),
      hex_digit (r div 16 mod 16), hex_digit (r mod 16)]"

definition html_safe :: "char \<Rightarrow> bool" where
  "html_safe c \<longleftrightarrow>
     0x20 \<le> byte_val c \<and> byte_val c < 0x80
     \<and> c \<notin> set [dquote, backslash, CHR ''<'', CHR ''>'', CHR ''&'']"

definition escape_ascii :: "char \<Rightarrow> gostring" where
  "escape_ascii c =
     (if html_safe c then [c]
      else if c = dquote \<or> c = backslash then [backslash, c]
      else if c = CHR 0x08 then [backslash, CHR ''b'']
      else if c = CHR 0x0C then [backslash, CHR ''f'']
      else if c = newline then [backslash, CHR ''n'']
      else if c = carriage then [backslash, CHR ''r'']
      else if c = CHR 0x09 then [backslash, CHR ''t'']
      else u_escape (byte_val c))"

function escape_string :: "gostring \<Rightarrow> gostring" where
  "escape_string [] = []"
| "escape_string (c # s) =
     (if byte_val c < 0x80 then escape_ascii c @ escape_string s
      else case decode_rune (c # s) of
             (r, n) \<Rightarrow>
               (if r = rune_error \<and> n = 1 then u_escape rune_error
                else if r = 0x2028 \<or> r = 0x2029 then u_escape r
                else take n (c # s)) @ escape_string (drop (n - 1) s))"
  by pat_completeness auto
termination by (relation "measure length") auto

declare escape_string.simps(2) [simp del]

definition quote :: "gostring \<Rightarrow> gostring" where
  "quote s = dquote # escape_string s @ [dquote]"

subsection \<open>Scanning and unquoting what was escaped\<close>

lemma hex_val_digit [simp]:
  assumes "n < 16"
  shows "hex_val (hex_digit n) = Some n"
proof -
  have "list_all (\<lambda>n. hex_val (hex_digit n) = Some n) [0..<16]" by code_simp
  then show ?thesis using assms by (simp only: list_all_iff set_upt) simp
qed

lemma hex_digit_plain [simp]:
  assumes "n < 16"
  shows "hex_digit n \<noteq> dquote" "hex_digit n \<noteq> backslash" "\<not> byte_val (hex_digit n) < 0x20"
proof -
  have "list_all (\<lambda>n. hex_digit n \<noteq> dquote \<and> hex_digit n \<noteq> backslash
      \<and> \<not> byte_val (hex_digit n) < 0x20) [0..<16]" by code_simp
  then show "hex_digit n \<noteq> dquote" "hex_digit n \<noteq> backslash" "\<not> byte_val (hex_digit n) < 0x20"
    using assms by (simp_all only: list_all_iff set_upt) simp_all
qed

lemma hex4_digits: "r < 65536 \<Longrightarrow>
    hex4 (hex_digit (r div 4096 mod 16) # hex_digit (r div 256 mod 16) # hex_digit (r div 16 mod 16)
      # hex_digit (r mod 16) # t) = Some r"
proof -
  assume r: "r < 65536"
  have q: "r div 256 = r div 16 div 16" "r div 4096 = r div 16 div 16 div 16"
    by (simp_all add: div_mult2_eq [symmetric])
  have lt: "r div 4096 < 16" using r by auto
  then have "((r div 4096 mod 16 * 16 + r div 256 mod 16) * 16 + r div 16 mod 16) * 16 + r mod 16 = r"
    unfolding q using div_mult_mod_eq [of r 16] div_mult_mod_eq [of "r div 16" 16]
      div_mult_mod_eq [of "r div 16 div 16" 16] by simp
  then show ?thesis using lt by (simp add: hex4_def)
qed

definition prepend :: "gostring \<Rightarrow> (gostring \<times> gostring) option \<Rightarrow> (gostring \<times> gostring) option" where
  "prepend w r = (case r of None \<Rightarrow> None | Some (v, t) \<Rightarrow> Some (w @ v, t))"

lemma prepend_simps [simp]: "prepend w None = None" "prepend w (Some (v, t)) = Some (w @ v, t)"
  by (simp_all add: prepend_def)

lemma scan_plain: "c \<noteq> dquote \<Longrightarrow> c \<noteq> backslash \<Longrightarrow> \<not> byte_val c < 0x20 \<Longrightarrow>
    scan_string (c # t) = prepend [c] (scan_string t)"
  by (auto simp add: prepend_def split: option.split)

lemma prepend_append: "prepend v (prepend w r) = prepend (v @ w) r"
  by (simp add: prepend_def split: option.split)

lemma scan_u_escape: "r < 65536 \<Longrightarrow> scan_string (u_escape r @ t) = prepend (u_escape r) (scan_string t)"
proof -
  assume r: "r < 65536"
  let ?h = "[hex_digit (r div 4096 mod 16), hex_digit (r div 256 mod 16), hex_digit (r div 16 mod 16),
    hex_digit (r mod 16)]"
  have "scan_string (?h @ t) = prepend ?h (scan_string t)"
    by (simp add: scan_plain prepend_append del: scan_string.simps)
  then show ?thesis
    using hex4_digits [OF r, of t] by (simp add: u_escape_def prepend_def split: option.split)
qed

lemma scan_escape_ascii:
  "byte_val c < 0x80 \<Longrightarrow> scan_string (escape_ascii c @ t) = prepend (escape_ascii c) (scan_string t)"
proof -
  assume c: "byte_val c < 0x80"
  have "scan_string (u_escape (byte_val c) @ t) = prepend (u_escape (byte_val c)) (scan_string t)"
    using c by (intro scan_u_escape) simp
  then show ?thesis
    by (auto simp: escape_ascii_def html_safe_def scan_plain simple_escapes_def prepend_def
        split: option.split)
qed

lemma scan_high: "list_all (\<lambda>c. 0x80 \<le> byte_val c) w \<Longrightarrow> scan_string (w @ t) = prepend w (scan_string t)"
proof (induction w)
  case Nil
  then show ?case by (simp add: prepend_def split: option.split)
next
  case (Cons c w)
  then have "c \<noteq> dquote" "c \<noteq> backslash" "\<not> byte_val c < 0x20" by auto
  then show ?case using Cons by (simp add: scan_plain prepend_append del: scan_string.simps)
qed

text \<open>A multi-byte rune consists of bytes above 0x7F and is decoded from its own bytes alone.\<close>

lemma decode_rune_multi:
  assumes "decode_rune (c # s) = (r, n)" "\<not> byte_val c < 0x80" "\<not> (r = rune_error \<and> n = 1)"
  shows "2 \<le> n" "list_all (\<lambda>c. 0x80 \<le> byte_val c) (take n (c # s))"
    "decode_rune (take n (c # s) @ t) = (r, n)" "length (take n (c # s)) = n"
  using assms
  by (cases s; cases "tl s"; cases "tl (tl s)";
      auto simp: decode_rune.simps(2) Let_def cont_def split: if_splits)+

lemma scan_escape_string:
  "scan_string (escape_string s @ dquote # rest) = Some (escape_string s, rest)"
proof (induction s rule: escape_string.induct)
  case 1
  then show ?case by simp
next
  case (2 c s)
  show ?case
  proof (cases "byte_val c < 0x80")
    case True
    then show ?thesis using 2(1) by (simp add: escape_string.simps(2) scan_escape_ascii)
  next
    case False
    obtain r n where d: "decode_rune (c # s) = (r, n)" by fastforce
    define w where "w = (if r = rune_error \<and> n = 1 then u_escape rune_error
        else if r = 0x2028 \<or> r = 0x2029 then u_escape r else take n (c # s))"
    have e: "escape_string (c # s) = w @ escape_string (drop (n - 1) s)"
      using False d by (simp add: escape_string.simps(2) w_def)
    have "scan_string (w @ t) = prepend w (scan_string t)" for t
      using decode_rune_multi [OF d False]
      by (auto simp: w_def scan_u_escape rune_error_def intro: scan_high)
    then show ?thesis using 2(2) [OF False d [symmetric]] by (simp add: e)
  qed
qed

lemma unquote_ascii:
  "byte_val c < 0x80 \<Longrightarrow> c \<noteq> backslash \<Longrightarrow> unquote (c # t) = c # unquote t"
  by (simp add: unquote.simps(2) decode_rune_ascii encode_rune_def encode_scalar_def scalar_def)

lemma unquote_u_escape:
  "r < 65536 \<Longrightarrow> \<not> surrogate r \<Longrightarrow> unquote (u_escape r @ t) = encode_rune r @ unquote t"
  using hex4_digits [of r t] by (simp add: u_escape_def unquote.simps(2))

lemma encode_rune_ascii: "byte_val c < 0x80 \<Longrightarrow> encode_rune (byte_val c) = [c]"
  by (simp add: encode_rune_def encode_scalar_def scalar_def)

lemma unquote_simple:
  "map_of simple_escapes e = Some d \<Longrightarrow> e \<noteq> CHR ''u'' \<Longrightarrow> unquote (backslash # e # t) = d # unquote t"
  by (simp add: unquote.simps(2))

lemma unquote_escape_ascii:
  assumes "byte_val c < 0x80"
  shows "unquote (escape_ascii c @ t) = c # unquote t"
proof -
  have u: "unquote (u_escape (byte_val c) @ t) = c # unquote t"
    using assms by (subst unquote_u_escape) (simp_all add: surrogate_def encode_rune_ascii)
  have m: "map_of simple_escapes dquote = Some dquote"
    "map_of simple_escapes backslash = Some backslash"
    "map_of simple_escapes CHR ''b'' = Some CHR 0x08" "map_of simple_escapes CHR ''f'' = Some CHR 0x0C"
    "map_of simple_escapes CHR ''n'' = Some newline" "map_of simple_escapes CHR ''r'' = Some carriage"
    "map_of simple_escapes CHR ''t'' = Some CHR 0x09"
    by (simp_all add: simple_escapes_def)
  note s = m [THEN unquote_simple]
  consider "html_safe c" | "\<not> html_safe c" "c \<in> {dquote, backslash}"
    | "\<not> html_safe c" "c \<notin> {dquote, backslash}" by blast
  then show ?thesis
  proof cases
    case 1
    then have "c \<noteq> backslash" by (auto simp: html_safe_def)
    then show ?thesis using 1 assms by (simp add: escape_ascii_def unquote_ascii)
  next
    case 2
    then show ?thesis using s(1,2) [of t] by (auto simp: escape_ascii_def)
  next
    case 3
    then have "escape_ascii c =
        (if c = CHR 0x08 then [backslash, CHR ''b''] else if c = CHR 0x0C then [backslash, CHR ''f'']
         else if c = newline then [backslash, CHR ''n''] else if c = carriage then [backslash, CHR ''r'']
         else if c = CHR 0x09 then [backslash, CHR ''t''] else u_escape (byte_val c))"
      by (simp add: escape_ascii_def)
    then show ?thesis using s(3-7) [of t] u by simp
  qed
qed

lemma unquote_multi:
  assumes "decode_rune (c # s) = (r, n)" "\<not> byte_val c < 0x80" "\<not> (r = rune_error \<and> n = 1)"
  shows "unquote (take n (c # s) @ t) = encode_rune r @ unquote t"
proof -
  note m = decode_rune_multi [OF assms]
  obtain k where n: "n = Suc k" using m(1) by (cases n) auto
  have l: "length (take k s) = k" using m(4) by (simp add: n)
  have d: "decode_rune (c # take k s @ t) = (r, n)" using m(3) [of t] by (simp add: n)
  have "c \<noteq> backslash" using assms(2) by auto
  then have "unquote (c # take k s @ t) = encode_rune r @ unquote (drop k (take k s @ t))"
    using d by (simp add: unquote.simps(2) n)
  also have "drop k (take k s @ t) = t" using l by simp
  finally show ?thesis by (simp add: n)
qed

lemma unquote_escape_string: "unquote (escape_string s) = coerce_utf8 s"
proof (induction s rule: escape_string.induct)
  case 1
  then show ?case by simp
next
  case (2 c s)
  show ?case
  proof (cases "byte_val c < 0x80")
    case True
    then have "coerce_utf8 (c # s) = c # coerce_utf8 s"
      by (subst coerce_utf8.simps) (simp add: decode_rune_ascii encode_rune_ascii)
    then show ?thesis
      using True 2(1) by (simp add: escape_string.simps(2) unquote_escape_ascii)
  next
    case False
    obtain r n where d: "decode_rune (c # s) = (r, n)" by fastforce
    define w where "w = (if r = rune_error \<and> n = 1 then u_escape rune_error
        else if r = 0x2028 \<or> r = 0x2029 then u_escape r else take n (c # s))"
    have e: "escape_string (c # s) = w @ escape_string (drop (n - 1) s)"
      using False d by (simp add: escape_string.simps(2) w_def)
    have n: "0 < n" using decode_rune_progress [OF _ d] by simp
    have "unquote (w @ t) = encode_rune r @ unquote t" for t
      using unquote_multi [OF d False]
      by (auto simp: w_def unquote_u_escape rune_error_def surrogate_def)
    moreover have "coerce_utf8 (c # s) = encode_rune r @ coerce_utf8 (drop (n - 1) s)"
      using n by (subst coerce_utf8.simps) (simp add: d drop_Cons')
    ultimately show ?thesis using 2(2) [OF False d [symmetric]] by (simp add: e)
  qed
qed

lemma unquote_valid: "valid_utf8 (unquote w)"
proof (induction w rule: unquote.induct)
  case (2 c s)
  show ?case
  proof (cases "c = backslash")
    case False
    obtain r n where "decode_rune (c # s) = (r, n)" by fastforce
    then show ?thesis
      using False 2(6) [OF False] by (simp add: unquote.simps(2) valid_encode_rune)
  next
    case True
    show ?thesis
    proof (cases s)
      case Nil
      then show ?thesis using True by (simp add: unquote.simps(2))
    next
      case (Cons e s')
      have esc: "valid_utf8 (d # t)" if "map_of simple_escapes e = Some d" "valid_utf8 t" for d t
        using that by (auto simp: simple_escapes_def split: if_splits)
      show ?thesis
        using 2(1-5) [OF True Cons] True Cons esc
        by (auto simp: unquote.simps(2) valid_encode_rune split: option.split)
    qed
  qed
qed simp

section \<open>Unmarshal\<close>

definition is_ws :: "char \<Rightarrow> bool" where
  "is_ws c \<longleftrightarrow> c = CHR '' '' \<or> c = CHR 0x09 \<or> c = newline \<or> c = carriage"

definition skip_ws :: "gostring \<Rightarrow> gostring" where
  "skip_ws s = dropWhile is_ws s"

text \<open>Arrays and objects may nest 10000 deep (\<open>maxNestingDepth\<close>).\<close>

definition max_depth :: int where
  "max_depth = 10000"

lemma skip_ws_length: "length (skip_ws s) \<le> length s"
  by (simp add: skip_ws_def length_dropWhile_le)

lemma skip_ws_Cons_length: "skip_ws s = c # t \<Longrightarrow> length t < length s"
  using skip_ws_length [of s] by simp

lemma scan_string_length: "scan_string s = Some (w, t) \<Longrightarrow> length t < length s"
  by (induction s arbitrary: w t rule: scan_string.induct)
    (auto split: if_splits list.splits option.splits, (blast intro: less_SucI)+)

text \<open>The tests \<open>length t2 \<le> length t1\<close> never fail (\<open>parse_length\<close>): they make the
  termination argument local.\<close>

function (sequential) parse_value :: "int \<Rightarrow> gostring \<Rightarrow> (json \<times> gostring) option"
  and parse_elements :: "int \<Rightarrow> gostring \<Rightarrow> (json list \<times> gostring) option"
  and parse_members :: "int \<Rightarrow> fields \<Rightarrow> gostring \<Rightarrow> (fields \<times> gostring) option" where
  "parse_value depth s =
     (case skip_ws s of
        [] \<Rightarrow> None
      | c # r \<Rightarrow>
          if c = dquote then
            (case scan_string r of
               None \<Rightarrow> None
             | Some (w, t) \<Rightarrow> Some (JStr (unquote w), t))
          else if c = CHR ''{'' then
            (if max_depth \<le> depth then None
             else if skip_ws r \<noteq> [] \<and> hd (skip_ws r) = CHR ''}''
             then Some (JObj [], tl (skip_ws r))
             else case parse_members (depth + 1) [] r of
                    None \<Rightarrow> None
                  | Some (m, t) \<Rightarrow> Some (JObj m, t))
          else if c = CHR ''['' then
            (if max_depth \<le> depth then None
             else if skip_ws r \<noteq> [] \<and> hd (skip_ws r) = CHR '']''
             then Some (JArr [], tl (skip_ws r))
             else case parse_elements (depth + 1) r of
                    None \<Rightarrow> None
                  | Some (vs, t) \<Rightarrow> Some (JArr vs, t))
          else if prefix ''null'' (c # r) then Some (JNull, drop 3 r)
          else if prefix ''true'' (c # r) then Some (JBool True, drop 3 r)
          else if prefix ''false'' (c # r) then Some (JBool False, drop 4 r)
          else case parse_number (c # r) of
                 None \<Rightarrow> None
               | Some (x, t) \<Rightarrow> Some (JNum x, t))"
| "parse_elements depth s =
     (case parse_value depth s of
        None \<Rightarrow> None
      | Some (v, t) \<Rightarrow>
          if \<not> length t \<le> length s then None
          else case skip_ws t of
                 [] \<Rightarrow> None
               | c # r \<Rightarrow>
                   if c = CHR '','' then
                     (case parse_elements depth r of
                        None \<Rightarrow> None
                      | Some (vs, u) \<Rightarrow> Some (v # vs, u))
                   else if c = CHR '']'' then Some ([v], r)
                   else None)"
| "parse_members depth acc s =
     (case skip_ws s of
        [] \<Rightarrow> None
      | c # r \<Rightarrow>
          if c \<noteq> dquote then None
          else case scan_string r of
            None \<Rightarrow> None
          | Some (w, t) \<Rightarrow>
              (case skip_ws t of
                 [] \<Rightarrow> None
               | d # t1 \<Rightarrow>
                   if d \<noteq> CHR '':'' then None
                   else case parse_value depth t1 of
                     None \<Rightarrow> None
                   | Some (v, t2) \<Rightarrow>
                       if \<not> length t2 \<le> length t1 then None
                       else case skip_ws t2 of
                         [] \<Rightarrow> None
                       | e # t3 \<Rightarrow>
                           if e = CHR '','' then
                             parse_members depth (set_field (unquote w) v acc) t3
                           else if e = CHR ''}'' then Some (set_field (unquote w) v acc, t3)
                           else None))"
  by pat_completeness auto
termination
  by (relation "measure (case_sum (\<lambda>(d, s). 2 * length s)
        (case_sum (\<lambda>(d, s). 2 * length s + 1) (\<lambda>(d, acc, s). 2 * length s)))")
    (auto dest!: skip_ws_Cons_length scan_string_length)

declare parse_value.simps [simp del] parse_elements.simps [simp del] parse_members.simps [simp del]

definition unmarshal :: "gostring \<Rightarrow> json option" where
  "unmarshal s =
     (case parse_value 0 s of
        None \<Rightarrow> None
      | Some (v, t) \<Rightarrow> if skip_ws t = [] then Some v else None)"

text \<open>Into a \<open>map[string]interface{}\<close>: the document \<open>null\<close> leaves the map nil.\<close>

definition unmarshal_map :: "gostring \<Rightarrow> fields option option" where
  "unmarshal_map s =
     (case unmarshal s of
        Some JNull \<Rightarrow> Some None
      | Some (JObj m) \<Rightarrow> Some (Some m)
      | _ \<Rightarrow> None)"

text \<open>Into a \<open>[]map[string]interface{}\<close>; its entries may be nil.\<close>

fun map_entry :: "json \<Rightarrow> fields option option" where
  "map_entry JNull = Some None"
| "map_entry (JObj m) = Some (Some m)"
| "map_entry _ = None"

fun map_entries :: "json list \<Rightarrow> fields option list option" where
  "map_entries [] = Some []"
| "map_entries (v # vs) =
     (case (map_entry v, map_entries vs) of
        (Some m, Some ms) \<Rightarrow> Some (m # ms)
      | _ \<Rightarrow> None)"

definition unmarshal_maps :: "gostring \<Rightarrow> fields option list option" where
  "unmarshal_maps s =
     (case unmarshal s of
        Some JNull \<Rightarrow> Some []
      | Some (JArr vs) \<Rightarrow> map_entries vs
      | _ \<Rightarrow> None)"

section \<open>Marshal\<close>

definition in_brackets :: "char \<Rightarrow> gostring list \<Rightarrow> char \<Rightarrow> gostring" where
  "in_brackets l ws r = l # join_with CHR '','' ws @ [r]"

fun marshal :: "json \<Rightarrow> gostring" where
  "marshal JNull = ''null''"
| "marshal (JBool b) = (if b then ''true'' else ''false'')"
| "marshal (JNum x) = format_float x"
| "marshal (JStr s) = quote s"
| "marshal (JArr vs) = in_brackets CHR ''['' (map marshal vs) CHR '']''"
| "marshal (JObj m) =
     in_brackets CHR ''{''
       (map (\<lambda>(k, w). quote k @ CHR '':'' # w) (sort_key fst (map (\<lambda>(k, v). (k, marshal v)) m)))
       CHR ''}''"

section \<open>The round trip\<close>

text \<open>What a decoded value satisfies: finite canonical numbers, well-formed strings, distinct
  keys; and nesting within the limit.\<close>

fun wf_json :: "json \<Rightarrow> bool" where
  "wf_json JNull \<longleftrightarrow> True"
| "wf_json (JBool b) \<longleftrightarrow> True"
| "wf_json (JNum x) \<longleftrightarrow> canonical_float (f_mant x) (f_exp x)"
| "wf_json (JStr s) \<longleftrightarrow> valid_utf8 s"
| "wf_json (JArr vs) \<longleftrightarrow> list_all (\<lambda>v. wf_json v) vs"
| "wf_json (JObj m) \<longleftrightarrow> distinct (map fst m) \<and> list_all (\<lambda>(k, v). valid_utf8 k \<and> wf_json v) m"

fun fits :: "int \<Rightarrow> json \<Rightarrow> bool" where
  "fits depth (JArr vs) \<longleftrightarrow> depth < max_depth \<and> list_all (\<lambda>v. fits (depth + 1) v) vs"
| "fits depth (JObj m) \<longleftrightarrow> depth < max_depth \<and> list_all (\<lambda>(k, v). fits (depth + 1) v) m"
| "fits depth _ \<longleftrightarrow> True"

text \<open>The value with the keys of every object in order.\<close>

fun sorted_keys :: "json \<Rightarrow> json" where
  "sorted_keys (JArr vs) = JArr (map sorted_keys vs)"
| "sorted_keys (JObj m) = JObj (sort_key fst (map (\<lambda>(k, v). (k, sorted_keys v)) m))"
| "sorted_keys v = v"

lemma insort_key_map_fst:
  "insort_key fst (case x of (k, v) \<Rightarrow> (k, f v)) (map (\<lambda>(k, v). (k, f v)) xs)
     = map (\<lambda>(k, v). (k, f v)) (insort_key fst x xs)"
  by (induction xs) (auto split: prod.splits)

lemma sort_key_map_fst:
  "sort_key fst (map (\<lambda>(k, v). (k, f v)) xs) = map (\<lambda>(k, v). (k, f v)) (sort_key fst xs)"
  by (induction xs) (simp_all add: insort_key_map_fst)

definition member_text :: "gostring \<times> json \<Rightarrow> gostring" where
  "member_text e = quote (fst e) @ CHR '':'' # marshal (snd e)"

lemma marshal_obj:
  "marshal (JObj m) = in_brackets CHR ''{'' (map member_text (sort_key fst m)) CHR ''}''"
proof -
  have "(\<lambda>(k, w). quote k @ CHR '':'' # w) \<circ> (\<lambda>(k, v). (k, marshal v)) = member_text"
    by (auto simp: member_text_def)
  then show ?thesis by (simp add: sort_key_map_fst)
qed

lemma is_ws_digit: "is_digit c \<Longrightarrow> \<not> is_ws c"
  by (auto simp: is_digit_def in_range_def is_ws_def)

lemma marshal_hd:
  assumes "wf_json v"
  shows "\<exists>c cs. marshal v = c # cs \<and> \<not> is_ws c \<and> c \<noteq> CHR '']'' \<and> c \<noteq> CHR ''}''"
proof (cases v)
  case (JNum x)
  obtain neg m e where x: "x = F64 neg m e" by (cases x)
  obtain c cs where "format_float (F64 neg m e) = c # cs" "c = CHR ''-'' \<or> is_digit c"
    using format_float_hd [of m e neg] assms JNum x by auto
  then show ?thesis
    using JNum x is_ws_digit [of c] by (auto simp: is_ws_def is_digit_def in_range_def)
qed (auto simp: quote_def in_brackets_def is_ws_def)

lemma skip_ws_Cons: "\<not> is_ws c \<Longrightarrow> skip_ws (c # s) = c # s"
  by (simp add: skip_ws_def)

lemma ends_number_sep [simp]: "ends_number (CHR '','' # s)" "ends_number (CHR '']'' # s)"
  "ends_number (CHR ''}'' # s)" "ends_number []"
  by (simp_all add: ends_number_def, code_simp+)

lemma is_ws_punct [simp]: "\<not> is_ws CHR '',''" "\<not> is_ws CHR '']''" "\<not> is_ws CHR ''}''" "\<not> is_ws CHR '':''"
  "\<not> is_ws dquote" "\<not> is_ws CHR ''{''" "\<not> is_ws CHR ''[''"
  by (simp_all add: is_ws_def)

definition reads_back :: "int \<Rightarrow> json \<Rightarrow> bool" where
  "reads_back depth v \<longleftrightarrow>
     (\<forall>rest. ends_number rest \<longrightarrow> parse_value depth (marshal v @ rest) = Some (sorted_keys v, rest))"

lemma parse_elements_marshal:
  assumes "vs \<noteq> []" "\<forall>v \<in> set vs. reads_back depth v"
  shows "parse_elements depth (join_with CHR '','' (map marshal vs) @ CHR '']'' # rest)
           = Some (map sorted_keys vs, rest)"
  using assms
proof (induction vs rule: induct_list012)
  case (2 v)
  then have "parse_value depth (marshal v @ CHR '']'' # rest) = Some (sorted_keys v, CHR '']'' # rest)"
    by (simp add: reads_back_def)
  then show ?case by (subst parse_elements.simps) (simp add: skip_ws_Cons)
next
  case (3 v w vs)
  let ?r = "CHR '','' # join_with CHR '','' (map marshal (w # vs)) @ CHR '']'' # rest"
  have "parse_value depth (marshal v @ ?r) = Some (sorted_keys v, ?r)"
    using 3 by (simp add: reads_back_def)
  then show ?case using 3 by (subst parse_elements.simps) (simp add: skip_ws_Cons)
qed simp

lemma set_field_fresh: "k \<notin> set (map fst m) \<Longrightarrow> set_field k v m = m @ [(k, v)]"
  by (induction m) auto

lemma parse_members_marshal:
  assumes "es \<noteq> []" "\<forall>e \<in> set es. valid_utf8 (fst e) \<and> reads_back depth (snd e)"
    and "distinct (map fst acc @ map fst es)"
  shows "parse_members depth acc (join_with CHR '','' (map member_text es) @ CHR ''}'' # rest)
           = Some (acc @ map (\<lambda>(k, v). (k, sorted_keys v)) es, rest)"
  using assms
proof (induction es arbitrary: acc rule: induct_list012)
  case (2 e)
  obtain k v where e: "e = (k, v)" by fastforce
  have "parse_value depth (marshal v @ CHR ''}'' # rest) = Some (sorted_keys v, CHR ''}'' # rest)"
    using 2 e by (simp add: reads_back_def)
  then show ?case
    using 2 e by (subst parse_members.simps)
      (simp add: member_text_def quote_def skip_ws_Cons scan_escape_string unquote_escape_string
        set_field_fresh)
next
  case (3 e e2 es)
  obtain k v where e: "e = (k, v)" by fastforce
  let ?r = "CHR '','' # join_with CHR '','' (map member_text (e2 # es)) @ CHR ''}'' # rest"
  have pv: "parse_value depth (marshal v @ ?r) = Some (sorted_keys v, ?r)"
    using 3 e by (simp add: reads_back_def)
  have k: "valid_utf8 k" "set_field k (sorted_keys v) acc = acc @ [(k, sorted_keys v)]"
    using 3 e by (auto intro!: set_field_fresh)
  have "parse_members depth acc (member_text e @ ?r)
      = parse_members depth (acc @ [(k, sorted_keys v)])
          (join_with CHR '','' (map member_text (e2 # es)) @ CHR ''}'' # rest)"
    using pv k by (subst parse_members.simps)
      (simp add: e member_text_def quote_def skip_ws_Cons scan_escape_string unquote_escape_string
        del: join_with.simps)
  also have "\<dots> = Some ((acc @ [(k, sorted_keys v)]) @ map (\<lambda>(k, v). (k, sorted_keys v)) (e2 # es), rest)"
    using 3 e by (intro 3(2)) auto
  finally show ?case by (simp add: e)
qed simp

lemma norm_obj: "sorted_keys (JObj m) = JObj (map (\<lambda>(k, v). (k, sorted_keys v)) (sort_key fst m))"
  by (simp add: sort_key_map_fst)

lemma reads_back_arr:
  assumes "depth < max_depth" "\<forall>v \<in> set vs. wf_json v \<and> reads_back (depth + 1) v"
  shows "reads_back depth (JArr vs)"
  unfolding reads_back_def
proof (intro allI impI)
  fix rest assume "ends_number rest"
  show "parse_value depth (marshal (JArr vs) @ rest) = Some (sorted_keys (JArr vs), rest)"
  proof (cases vs)
    case Nil
    then show ?thesis
      using assms(1) by (subst parse_value.simps) (simp add: in_brackets_def skip_ws_Cons)
  next
    case (Cons v ws)
    obtain c cs where c: "marshal v = c # cs" "\<not> is_ws c" "c \<noteq> CHR '']''"
      using assms(2) marshal_hd [of v] Cons by auto
    let ?t = "join_with CHR '','' (map marshal vs) @ CHR '']'' # rest"
    obtain ts where t: "?t = c # ts"
      using c Cons by (cases ws) auto
    have "parse_elements (depth + 1) ?t = Some (map sorted_keys vs, rest)"
      using Cons assms(2) by (intro parse_elements_marshal) auto
    then show ?thesis
      using assms(1) c t by (subst parse_value.simps) (simp add: in_brackets_def skip_ws_Cons)
  qed
qed

lemma reads_back_obj:
  assumes "depth < max_depth" "distinct (map fst m)"
    and "\<forall>e \<in> set m. valid_utf8 (fst e) \<and> reads_back (depth + 1) (snd e)"
  shows "reads_back depth (JObj m)"
  unfolding reads_back_def
proof (intro allI impI)
  fix rest assume "ends_number rest"
  let ?es = "sort_key fst m"
  show "parse_value depth (marshal (JObj m) @ rest) = Some (sorted_keys (JObj m), rest)"
  proof (cases "?es = []")
    case True
    then show ?thesis
      using assms(1) unfolding marshal_obj norm_obj
      by (subst parse_value.simps) (simp add: in_brackets_def skip_ws_Cons)
  next
    case False
    let ?t = "join_with CHR '','' (map member_text ?es) @ CHR ''}'' # rest"
    obtain e es where "?es = e # es" using False by (cases ?es) auto
    then obtain ts where t: "?t = dquote # ts"
      by (cases es) (auto simp: member_text_def quote_def)
    have "mset (map fst ?es) = mset (map fst m)" by (simp only: mset_map mset_sort)
    then have "distinct (map fst ?es)" using assms(2) by (metis mset_eq_imp_distinct_iff)
    then have "parse_members (depth + 1) [] ?t = Some ([] @ map (\<lambda>(k, v). (k, sorted_keys v)) ?es, rest)"
      using False assms(3) by (intro parse_members_marshal) simp_all
    then show ?thesis
      using assms(1) t unfolding marshal_obj norm_obj
      by (subst parse_value.simps) (simp add: in_brackets_def skip_ws_Cons)
  qed
qed

lemma reads_back_marshal: "wf_json v \<Longrightarrow> fits depth v \<Longrightarrow> reads_back depth v"
proof (induction v arbitrary: depth rule: marshal.induct)
  case (3 x)
  obtain neg m e where x: "x = F64 neg m e" by (cases x)
  then have can: "canonical_float m e" using 3 by simp
  obtain c cs where c: "format_float x = c # cs" "c = CHR ''-'' \<or> is_digit c"
    using format_float_hd [OF can, of neg] x by auto
  then have nc: "\<not> is_ws c" "c \<noteq> dquote" "c \<noteq> CHR ''{''" "c \<noteq> CHR ''[''" "c \<noteq> CHR ''n''"
    "c \<noteq> CHR ''t''" "c \<noteq> CHR ''f''"
    using is_ws_digit [of c] by (auto simp: is_digit_def in_range_def is_ws_def)
  show ?case
    unfolding reads_back_def
  proof (intro allI impI)
    fix rest assume "ends_number rest"
    then have "parse_number (c # cs @ rest) = Some (x, rest)"
      using parse_format_number [OF can, of rest neg] c x by simp
    then show "parse_value depth (marshal (JNum x) @ rest) = Some (sorted_keys (JNum x), rest)"
      using c nc by (subst parse_value.simps) (simp add: skip_ws_Cons)
  qed
next
  case (4 s)
  then show ?case
    by (simp add: reads_back_def parse_value.simps quote_def skip_ws_Cons scan_escape_string
        unquote_escape_string)
next
  case (5 vs)
  then show ?case by (intro reads_back_arr) (auto simp: list_all_iff)
next
  case (6 m)
  then show ?case by (intro reads_back_obj) (fastforce simp: list_all_iff)+
qed (auto simp: reads_back_def parse_value.simps skip_ws_def is_ws_def)

theorem unmarshal_marshal: "wf_json v \<Longrightarrow> fits 0 v \<Longrightarrow> unmarshal (marshal v) = Some (sorted_keys v)"
  using reads_back_marshal [of v 0]
  by (auto simp: reads_back_def unmarshal_def skip_ws_def dest!: spec [of _ "[]"])

lemma sort_key_sorted_keys:
  "sort_key fst (map (\<lambda>(k, v). (k, f v)) (sort_key fst m)) = map (\<lambda>(k, v). (k, f v)) (sort_key fst m)"
  by (simp add: sort_key_map_fst sort_key_id_if_sorted sorted_sort_key)

text \<open>Marshalling does not see the order of the keys.\<close>

lemma marshal_sorted: "marshal (sorted_keys v) = marshal v"
proof (induction v rule: marshal.induct)
  case (5 vs)
  then have "map marshal (map sorted_keys vs) = map marshal vs" by simp
  then show ?case by (simp only: sorted_keys.simps marshal.simps)
next
  case (6 m)
  have "map member_text (map (\<lambda>(k, v). (k, sorted_keys v)) (sort_key fst m))
      = map member_text (sort_key fst m)"
    using 6 by (auto simp: member_text_def)
  then show ?case unfolding norm_obj marshal_obj sort_key_sorted_keys by (simp only:)
qed simp_all

section \<open>Decoded values are well formed\<close>

lemma skip_ws_tl_length: "skip_ws r \<noteq> [] \<Longrightarrow> length (tl (skip_ws r)) < length r"
  using skip_ws_length [of r] by (cases "skip_ws r") auto

definition good_value :: "int \<Rightarrow> json \<Rightarrow> bool" where
  "good_value depth v \<longleftrightarrow> wf_json v \<and> fits depth v"

definition good_fields :: "int \<Rightarrow> fields \<Rightarrow> bool" where
  "good_fields depth m \<longleftrightarrow>
     distinct (map fst m) \<and> list_all (\<lambda>(k, v). valid_utf8 k \<and> good_value depth v) m"

lemma list_all_update: "list_all P m \<Longrightarrow> P (k, v) \<Longrightarrow> list_all P (set_field k v m)"
  by (induction m) auto

lemma good_fields_set:
  "good_fields depth m \<Longrightarrow> valid_utf8 k \<Longrightarrow> good_value depth v \<Longrightarrow> good_fields depth (set_field k v m)"
  by (simp add: good_fields_def distinct_update list_all_update)

lemma good_obj: "depth < max_depth \<Longrightarrow> good_fields (depth + 1) m \<Longrightarrow> good_value depth (JObj m)"
  by (auto simp: good_fields_def good_value_def list_all_iff)

lemma good_arr: "depth < max_depth \<Longrightarrow> list_all (good_value (depth + 1)) vs \<Longrightarrow> good_value depth (JArr vs)"
  by (auto simp: good_value_def list_all_iff)

lemma good_atoms [simp]: "good_value depth JNull" "good_value depth (JBool b)"
  "good_value depth (JStr (unquote w))"
  by (simp_all add: good_value_def unquote_valid)

lemma good_num: "parse_number s = Some (x, t) \<Longrightarrow> good_value depth (JNum x)"
  by (cases x) (auto simp: good_value_def dest: parse_number_canonical)

lemma parse_value_step:
  assumes "parse_value depth s = Some (v, t)"
    and obj: "\<And>r m u. depth < max_depth \<Longrightarrow> length r < length s \<Longrightarrow> v = JObj m \<Longrightarrow>
        parse_members (depth + 1) [] r = Some (m, t) \<Longrightarrow> thesis"
    and arr: "\<And>r vs u. depth < max_depth \<Longrightarrow> length r < length s \<Longrightarrow> v = JArr vs \<Longrightarrow>
        parse_elements (depth + 1) r = Some (vs, t) \<Longrightarrow> thesis"
    and atom: "good_value depth v \<Longrightarrow> length t < length s \<Longrightarrow> thesis"
  shows thesis
proof -
  obtain c r where s: "skip_ws s = c # r"
    using assms(1) by (cases "skip_ws s") (auto simp: parse_value.simps)
  have r: "length r < length s" by (rule skip_ws_Cons_length [OF s])
  note pv = assms(1) [unfolded parse_value.simps [of depth s] s list.case]
  consider "c = dquote" | "c = CHR ''{''" | "c = CHR ''[''"
    | "c \<noteq> dquote" "c \<noteq> CHR ''{''" "c \<noteq> CHR ''[''" by blast
  then show thesis
  proof cases
    case 1
    then show thesis using pv r by (auto split: option.splits dest!: scan_string_length intro!: atom)
  next
    case 2
    have d: "depth < max_depth" using pv 2 by (auto split: if_splits)
    show thesis
    proof (cases "skip_ws r \<noteq> [] \<and> hd (skip_ws r) = CHR ''}''")
      case True
      then have "v = JObj []" "t = tl (skip_ws r)" using pv 2 d by auto
      then show thesis
        using True r d skip_ws_tl_length [of r] by (intro atom) (simp_all add: good_value_def)
    next
      case False
      then show thesis using pv 2 d r by (auto split: option.splits if_splits intro!: obj)
    qed
  next
    case 3
    have d: "depth < max_depth" using pv 3 by (auto split: if_splits)
    show thesis
    proof (cases "skip_ws r \<noteq> [] \<and> hd (skip_ws r) = CHR '']''")
      case True
      then have "v = JArr []" "t = tl (skip_ws r)" using pv 3 d by auto
      then show thesis
        using True r d skip_ws_tl_length [of r] by (intro atom) (simp_all add: good_value_def)
    next
      case False
      then show thesis using pv 3 d r by (auto split: option.splits if_splits intro!: arr)
    qed
  next
    case 4
    have n: "length u < length s" if "parse_number (c # r) = Some (x, u)" for x u
      using parse_number_length [OF that] r by simp
    have l: "length (drop k r) < length s" for k using r by simp
    note pv' = pv [unfolded if_not_P [OF 4(1)] if_not_P [OF 4(2)] if_not_P [OF 4(3)]]
    consider "v = JNull" "t = drop 3 r" | "v = JBool True" "t = drop 3 r"
      | "v = JBool False" "t = drop 4 r" | x where "parse_number (c # r) = Some (x, t)" "v = JNum x"
      using pv' by (auto simp only: if_split option.splits prod.splits option.inject prod.inject
          split: if_split_asm option.split_asm prod.split_asm)
    then show thesis
      by cases (use n l in \<open>auto intro!: atom dest: good_num\<close>)
  qed
qed

definition good_parse :: "nat \<Rightarrow> bool" where
  "good_parse n \<longleftrightarrow>
     (\<forall>s. length s < n \<longrightarrow>
        (\<forall>depth v t. parse_value depth s = Some (v, t) \<longrightarrow> good_value depth v \<and> length t < length s)
      \<and> (\<forall>depth vs t. parse_elements depth s = Some (vs, t) \<longrightarrow>
           list_all (good_value depth) vs \<and> length t < length s)
      \<and> (\<forall>depth acc m t. parse_members depth acc s = Some (m, t) \<longrightarrow> good_fields depth acc \<longrightarrow>
           good_fields depth m \<and> length t < length s))"

lemma good_fields_Nil [simp]: "good_fields depth []"
  by (simp add: good_fields_def)

lemma parse_elements_step:
  assumes "parse_elements depth s = Some (vs, t)"
  obtains v u r where "parse_value depth s = Some (v, u)" "length r < length u" "vs = [v]" "t = r"
    | v u r ws where "parse_value depth s = Some (v, u)" "length r < length u"
        "parse_elements depth r = Some (ws, t)" "vs = v # ws" "length u \<le> length s"
proof -
  obtain v u where v: "parse_value depth s = Some (v, u)"
    using assms by (subst (asm) parse_elements.simps) (auto split: option.splits)
  note pe = assms [unfolded parse_elements.simps [of depth s] v option.case prod.case]
  have le: "length u \<le> length s" using pe by (auto split: if_splits)
  obtain c r where u: "skip_ws u = c # r"
    using pe le by (cases "skip_ws u") auto
  show thesis
    using pe le u skip_ws_Cons_length [OF u] that v
    by (auto split: if_splits option.splits)
qed

lemma parse_members_step:
  assumes "parse_members depth acc s = Some (m, t)"
  obtains w t1 v t2 t3 where "length t1 < length s" "parse_value depth t1 = Some (v, t2)"
    "length t3 < length t2" "length t2 \<le> length t1"
    "(t3 = t \<and> m = set_field (unquote w) v acc)
       \<or> parse_members depth (set_field (unquote w) v acc) t3 = Some (m, t)"
proof -
  obtain c r where s: "skip_ws s = c # r"
    using assms by (cases "skip_ws s") (auto simp: parse_members.simps)
  note pm = assms [unfolded parse_members.simps [of depth acc s] s list.case]
  have c: "c = dquote" using pm by (auto split: if_splits)
  obtain w u where w: "scan_string r = Some (w, u)"
    using pm c by (cases "scan_string r") auto
  obtain d t1 where u: "skip_ws u = d # t1"
    using pm c w by (cases "skip_ws u") auto
  have d: "d = CHR '':''" using pm c w u by (auto split: if_splits)
  obtain v t2 where v: "parse_value depth t1 = Some (v, t2)"
    using pm c w u d by (cases "parse_value depth t1") auto
  have le: "length t2 \<le> length t1" using pm c w u d v by (auto split: if_splits)
  obtain e t3 where t2: "skip_ws t2 = e # t3"
    using pm c w u d v le by (cases "skip_ws t2") auto
  have "length t1 < length s"
    using skip_ws_Cons_length [OF s] scan_string_length [OF w] skip_ws_Cons_length [OF u] by simp
  moreover have "(t3 = t \<and> m = set_field (unquote w) v acc)
       \<or> parse_members depth (set_field (unquote w) v acc) t3 = Some (m, t)"
    using pm c w u d v le t2 by (auto split: if_splits)
  ultimately show thesis using that v le skip_ws_Cons_length [OF t2] by blast
qed

lemma good_parse: "good_parse n"
proof (induction n)
  case 0
  then show ?case by (simp add: good_parse_def)
next
  case (Suc n)
  have vals: "good_value depth v \<and> length t < length s"
    if "length s \<le> n" "parse_value depth s = Some (v, t)" for depth s v t
    using that(2)
  proof (rule parse_value_step)
    fix r m assume "depth < max_depth" "length r < length s" "v = JObj m"
      "parse_members (depth + 1) [] r = Some (m, t)"
    moreover have "good_fields (depth + 1) m \<and> length t < length r"
      using Suc that(1) calculation(2,4) unfolding good_parse_def by (metis good_fields_Nil order_less_le_trans)
    ultimately show ?thesis using good_obj by simp
  next
    fix r vs assume "depth < max_depth" "length r < length s" "v = JArr vs"
      "parse_elements (depth + 1) r = Some (vs, t)"
    moreover have "list_all (good_value (depth + 1)) vs \<and> length t < length r"
      using Suc that(1) calculation(2,4) unfolding good_parse_def by (metis order_less_le_trans)
    ultimately show ?thesis using good_arr by simp
  qed simp
  have elements: "list_all (good_value depth) vs \<and> length t < length s"
    if "length s \<le> n" "parse_elements depth s = Some (vs, t)" for depth s vs t
    using that(2)
  proof (cases rule: parse_elements_step)
    case (1 v u r)
    then show ?thesis using vals [OF that(1)] by fastforce
  next
    case (2 v u r ws)
    have "good_value depth v" using vals [OF that(1) 2(1)] by simp
    moreover have "list_all (good_value depth) ws \<and> length t < length r"
      using Suc that(1) 2 unfolding good_parse_def by (metis order_less_le_trans)
    ultimately show ?thesis using 2 by simp
  qed
  have members: "good_fields depth m \<and> length t < length s"
    if s: "length s \<le> n" and p: "parse_members depth acc s = Some (m, t)" and acc: "good_fields depth acc"
    for depth acc s m t
    using p
  proof (cases rule: parse_members_step)
    case (1 w t1 v t2 t3)
    have "good_value depth v" using vals [of t1 depth v t2] 1 s by simp
    then have acc': "good_fields depth (set_field (unquote w) v acc)"
      by (intro good_fields_set [OF acc unquote_valid])
    show ?thesis
    proof (cases "t3 = t \<and> m = set_field (unquote w) v acc")
      case True
      then show ?thesis using acc' 1 by simp
    next
      case False
      then have "parse_members depth (set_field (unquote w) v acc) t3 = Some (m, t)" using 1 by blast
      moreover have "length t3 < n" using 1 s by simp
      ultimately have "good_fields depth m \<and> length t < length t3"
        using Suc acc' unfolding good_parse_def by blast
      then show ?thesis using 1 by simp
    qed
  qed
  show ?case
    unfolding good_parse_def using vals elements members by (auto simp: less_Suc_eq_le)
qed

theorem unmarshal_good: "unmarshal s = Some v \<Longrightarrow> wf_json v \<and> fits 0 v"
  using good_parse [of "Suc (length s)"]
  by (auto simp: good_parse_def good_value_def unmarshal_def split: option.splits if_splits)

section \<open>Evaluation\<close>

text \<open>Equations with a short way for the ASCII bytes, which concrete bodies consist of.\<close>

lemma scan_string_code [code]:
  "scan_string [] = None"
  "scan_string (c # s) =
     (if c = dquote then Some ([], s)
      else if c = backslash then
        (case s of
           [] \<Rightarrow> None
         | e # s' \<Rightarrow>
             if e = CHR ''u'' then
               (if hex4 s' = None then None
                else case scan_string s' of
                       None \<Rightarrow> None
                     | Some (w, t) \<Rightarrow> Some (c # e # w, t))
             else if map_of simple_escapes e = None then None
             else case scan_string s' of
                    None \<Rightarrow> None
                  | Some (w, t) \<Rightarrow> Some (c # e # w, t))
      else if is_control c then None
      else case scan_string s of None \<Rightarrow> None | Some (w, t) \<Rightarrow> Some (c # w, t))"
  by (simp_all add: is_control_iff)

lemma unquote_code [code]:
  "unquote [] = []"
  "unquote (c # s) =
     (if c = backslash then
        (case s of
           [] \<Rightarrow> []
         | e # s' \<Rightarrow>
             if e = CHR ''u'' then
               (case hex4 s' of
                  None \<Rightarrow> []
                | Some r \<Rightarrow>
                    if surrogate r then
                      (case next_u (drop 4 s') of
                         None \<Rightarrow> encode_rune rune_error @ unquote (drop 4 s')
                       | Some r2 \<Rightarrow>
                           (case pair_rune r r2 of
                              None \<Rightarrow> encode_rune rune_error @ unquote (drop 4 s')
                            | Some p \<Rightarrow> encode_rune p @ unquote (drop 10 s')))
                    else encode_rune r @ unquote (drop 4 s'))
             else case map_of simple_escapes e of
                    None \<Rightarrow> []
                  | Some d \<Rightarrow> d # unquote s')
      else if is_ascii c then c # unquote s
      else case decode_rune (c # s) of
             (r, n) \<Rightarrow> encode_rune r @ unquote (drop (n - 1) s))"
  by (simp, cases "c = backslash") (simp_all only: unquote.simps(2) if_True if_False refl is_ascii_iff decode_rune_ascii encode_rune_ascii split: if_split, auto simp: decode_rune_ascii encode_rune_ascii)

lemma html_safe_code [code]:
  "html_safe c \<longleftrightarrow> is_ascii c \<and> \<not> is_control c \<and> c \<notin> set [dquote, backslash, CHR ''<'', CHR ''>'', CHR ''&'']"
  by (auto simp: html_safe_def is_ascii_iff is_control_iff)

lemma escape_string_code [code]:
  "escape_string [] = []"
  "escape_string (c # s) =
     (if is_ascii c then escape_ascii c @ escape_string s
      else case decode_rune (c # s) of
             (r, n) \<Rightarrow>
               (if r = rune_error \<and> n = 1 then u_escape rune_error
                else if r = 0x2028 \<or> r = 0x2029 then u_escape r
                else take n (c # s)) @ escape_string (drop (n - 1) s))"
  by (simp_all add: is_ascii_iff escape_string.simps)

lemma coerce_utf8_code [code]:
  "coerce_utf8 s =
     (case s of [] \<Rightarrow> []
      | c # t \<Rightarrow> if is_ascii c then c # coerce_utf8 t
          else case decode_rune s of (r, n) \<Rightarrow> encode_rune r @ coerce_utf8 (drop n s))"
  by (cases s) (auto simp: is_ascii_iff coerce_utf8.simps [of "_ # _"] decode_rune_ascii encode_rune_ascii)

end
