(* ===== verification/Bodies.thy ===== *)
theory Bodies
  imports NetworkCreate Codec
begin

text \<open>
  \<open>CheckCreate\<close> and \<open>CheckNetworkCreate\<close> on bytes: size limit, \<open>json.Unmarshal\<close>, the checks of
  theories \<open>Create\<close> and \<open>NetworkCreate\<close>, \<open>json.Marshal\<close>.  What the daemon decodes from the
  rewritten body is stated over \<open>unmarshal_map\<close>.  The locale \<open>body_check\<close> is the contract the
  two share; its lemmas (the owner label arrives, errors have a status) are proved once and
  used for both.
\<close>

section \<open>Fields in key order\<close>

definition norm_fields :: "fields \<Rightarrow> fields" where
  "norm_fields m = map (\<lambda>(k, v). (k, sorted_keys v)) (sort_key fst m)"

lemma norm_JObj: "sorted_keys (JObj m) = JObj (norm_fields m)"
  by (simp only: norm_obj norm_fields_def)

lemma norm_JObj_iff: "sorted_keys v = JObj m \<longleftrightarrow> (\<exists>m'. v = JObj m' \<and> m = norm_fields m')"
  by (cases v) (auto simp: norm_JObj simp del: sorted_keys.simps(2))

lemma field_norm_fields:
  assumes "distinct (map fst m)"
  shows "field (norm_fields m) k = map_option sorted_keys (field m k)"
proof -
  have "mset (map fst (sort_key fst m)) = mset (map fst m)" by (simp only: mset_map mset_sort)
  then have "distinct (map fst (sort_key fst m))" using assms by (metis mset_eq_imp_distinct_iff)
  then have "field (sort_key fst m) = field m"
    using assms by (intro map_of_inject_set [THEN iffD2]) simp_all
  then show ?thesis by (simp add: norm_fields_def map_of_map)
qed

lemma norm_JNull [simp]: "sorted_keys v = JNull \<longleftrightarrow> v = JNull"
  by (cases v) simp_all

lemma present_norm_fields:
  "distinct (map fst m) \<Longrightarrow> present (norm_fields m) k = map_option sorted_keys (present m k)"
  by (simp add: present_def field_norm_fields split: option.split)

lemma field_or_nil_norm_fields:
  "distinct (map fst m) \<Longrightarrow> field_or_nil (norm_fields m) k = sorted_keys (field_or_nil m k)"
  by (simp add: field_or_nil_def field_norm_fields split: option.split)

lemma as_norm [simp]:
  "as_str (sorted_keys v) = as_str v"
  "as_obj (sorted_keys v) = map_option norm_fields (as_obj v)"
  "as_arr (sorted_keys v) = map_option (map sorted_keys) (as_arr v)"
  by (cases v; simp add: norm_JObj del: sorted_keys.simps(2))+

lemma str_or_empty_norm [simp]: "str_or_empty (sorted_keys v) = str_or_empty v"
  by (simp add: str_or_empty_def)

lemma isTruthy_norm [simp]: "isTruthy (sorted_keys v) = isTruthy v"
proof (cases v)
  case (JObj m)
  then show ?thesis by (cases m) (auto simp: norm_JObj norm_fields_def simp del: sorted_keys.simps(2))
qed simp_all

definition wf_fields :: "fields \<Rightarrow> bool" where
  "wf_fields m \<longleftrightarrow> wf_json (JObj m)"

lemma wf_fields_distinct [simp]: "wf_fields m \<Longrightarrow> distinct (map fst m)"
  by (simp add: wf_fields_def)

lemma wf_present: "wf_fields m \<Longrightarrow> present m k = Some v \<Longrightarrow> wf_json v"
  by (auto simp: wf_fields_def present_Some list_all_iff dest!: map_of_SomeD)

lemma wf_present_obj: "wf_fields m \<Longrightarrow> present m k = Some v \<Longrightarrow> as_obj v = Some m' \<Longrightarrow> wf_fields m'"
  by (drule (1) wf_present) (simp add: wf_fields_def json_simps)

lemma user_ok_norm: "wf_fields m \<Longrightarrow> user_ok (norm_fields m) = user_ok m"
  by (simp add: user_ok_def present_norm_fields split: option.split)

lemma endpoints_keys_norm:
  "list_all (\<lambda>(k, _). networkAllowedForUser k user) (norm_fields m)
     = list_all (\<lambda>(k, _). networkAllowedForUser k user) m"
  by (auto simp: norm_fields_def list_all_iff)

lemma endpoints_ok_norm:
  assumes "wf_fields m"
  shows "endpoints_ok user (norm_fields m) = endpoints_ok user m"
proof (cases "present m ''NetworkingConfig''")
  case (Some v)
  show ?thesis
  proof (cases "as_obj v")
    case (Some nc)
    then have "wf_fields nc" using wf_present_obj [OF assms \<open>present m _ = Some v\<close>] by simp
    then show ?thesis
      using Some \<open>present m _ = Some v\<close> assms
      by (simp add: endpoints_ok_def present_norm_fields endpoints_keys_norm split: option.split)
  qed (use Some assms in \<open>simp add: endpoints_ok_def present_norm_fields\<close>)
qed (use assms in \<open>simp add: endpoints_ok_def present_norm_fields\<close>)

lemma list_ok_norm:
  assumes "wf_fields m" "\<And>v. wf_json v \<Longrightarrow> ok (sorted_keys v) = ok v"
  shows "list_ok name ok (norm_fields m) = list_ok name ok m"
proof (cases "present m name")
  case (Some v)
  then have v: "wf_json v" using wf_present [OF assms(1)] by simp
  show ?thesis
  proof (cases v)
    case (JArr vs)
    then have "list_all ok (map sorted_keys vs) = list_all ok vs"
      using v assms(2) by (auto simp: list_all_iff)
    then show ?thesis using Some JArr assms(1) by (simp add: list_ok_def present_norm_fields)
  qed (use Some assms(1) in \<open>simp_all add: list_ok_def present_norm_fields\<close>)
qed (use assms(1) in \<open>simp add: list_ok_def present_norm_fields\<close>)

lemma bind_ok_norm: "bind_ok ok (sorted_keys v) = bind_ok ok v"
  by (simp add: bind_ok_def)

lemma mount_ok_norm: "wf_json v \<Longrightarrow> mount_ok ok (sorted_keys v) = mount_ok ok v"
  by (cases v) (simp_all add: mount_ok_def norm_JObj field_or_nil_norm_fields
      del: sorted_keys.simps(2) as_norm)

lemma not_dangerous_norm: "wf_fields m \<Longrightarrow> not_dangerous (norm_fields m) = not_dangerous m"
  unfolding not_dangerous_def
  by (intro list_all_cong refl) (simp add: field_norm_fields split: option.split)

lemma network_mode_ok_norm: "wf_fields m \<Longrightarrow> network_mode_ok user (norm_fields m) = network_mode_ok user m"
  by (simp add: network_mode_ok_def present_norm_fields split: option.split)

lemma host_config_ok_norm:
  assumes "wf_fields m"
  shows "host_config_ok ok user (norm_fields m) = host_config_ok ok user m"
proof (cases "present m ''HostConfig''")
  case (Some v)
  show ?thesis
  proof (cases "as_obj v")
    case (Some hc)
    then have "wf_fields hc" using wf_present_obj [OF assms \<open>present m _ = Some v\<close>] by simp
    then show ?thesis
      using Some \<open>present m _ = Some v\<close> assms
      by (simp add: host_config_ok_def present_norm_fields not_dangerous_norm network_mode_ok_norm
          list_ok_norm bind_ok_norm mount_ok_norm extra_host_ok_def)
  qed (use Some assms in \<open>simp add: host_config_ok_def present_norm_fields\<close>)
qed (use assms in \<open>simp add: host_config_ok_def present_norm_fields\<close>)

lemma create_ok_norm: "wf_fields m \<Longrightarrow> create_ok ok user (norm_fields m) = create_ok ok user m"
  by (simp add: create_ok_def user_ok_norm host_config_ok_norm endpoints_ok_norm)

lemma network_ok_norm: "wf_fields m \<Longrightarrow> network_ok user (norm_fields m) = network_ok user m"
proof -
  assume m: "wf_fields m"
  have "norm_fields cf = [] \<longleftrightarrow> cf = []" for cf
    by (cases cf) (auto simp: norm_fields_def)
  then show ?thesis
    using m by (auto simp: network_ok_def driver_ok_def name_ok_def config_from_ok_def
        present_norm_fields field_norm_fields split: option.split)
qed

lemma wf_field:
  assumes "wf_fields m" "field m k = Some v"
  shows "wf_json v"
proof -
  have "\<forall>e \<in> set m. case e of (k, v) \<Rightarrow> valid_utf8 k \<and> wf_json v"
    using assms(1) by (simp add: wf_fields_def list_all_iff)
  from bspec [OF this map_of_SomeD [OF assms(2)]] show ?thesis by simp
qed

lemma owner_of_norm:
  assumes "wf_fields m"
  shows "owner_of (norm_fields m) = owner_of m"
proof (cases "as_obj (field_or_nil m ''Labels'')")
  case (Some l)
  then have "field m ''Labels'' = Some (JObj l)"
    by (simp add: field_or_nil_def json_simps split: option.splits)
  from wf_field [OF assms this] have "wf_fields l" by (simp add: wf_fields_def)
  then show ?thesis
    using Some assms by (simp add: owner_of_def field_or_nil_norm_fields)
qed (use assms in \<open>simp add: owner_of_def field_or_nil_norm_fields\<close>)

section \<open>Rewriting keeps values well formed\<close>

lemma good_field: "good_fields depth m \<Longrightarrow> field m k = Some v \<Longrightarrow> good_value depth v"
  by (auto simp: good_fields_def list_all_iff dest!: map_of_SomeD)

lemma good_obj_iff: "good_value depth (JObj m) \<longleftrightarrow> depth < max_depth \<and> good_fields (depth + 1) m"
  by (auto simp: good_fields_def good_value_def list_all_iff)

lemma good_arr_iff:
  "good_value depth (JArr vs) \<longleftrightarrow> depth < max_depth \<and> list_all (good_value (depth + 1)) vs"
  by (auto simp: good_value_def list_all_iff)

lemma good_str [simp]: "good_value depth (JStr s) \<longleftrightarrow> valid_utf8 s"
  by (simp add: good_value_def)

lemma good_wf_fields: "good_fields depth m \<Longrightarrow> wf_fields m"
  by (auto simp: wf_fields_def good_fields_def good_value_def list_all_iff)

lemma valid_keys [simp]: "valid_utf8 ''Labels''" "valid_utf8 ''HostConfig''" "valid_utf8 ''Binds''"
  "valid_utf8 ''Mounts''" "valid_utf8 ''Source''" "valid_utf8 owner_label"
  by (simp_all add: owner_label_def)

lemma good_labelled:
  assumes "good_fields 1 m" "valid_utf8 user"
  shows "good_fields 1 (labelled user m)"
proof -
  have "good_fields 2 (owner_labels user m)"
  proof (cases "as_obj (field_or_nil m ''Labels'')")
    case None
    then show ?thesis using assms(2) by (simp add: owner_labels_def good_fields_def)
  next
    case (Some l)
    then have "field m ''Labels'' = Some (JObj l)"
      by (simp add: field_or_nil_def json_simps split: option.splits)
    then have "good_fields 2 l" using good_field [OF assms(1)] by (fastforce simp: good_obj_iff)
    then show ?thesis using Some assms(2) by (simp add: owner_labels_def good_fields_set)
  qed
  then have "good_value 1 (JObj (owner_labels user m))"
    by (simp add: good_obj_iff max_depth_def)
  then show ?thesis using assms(1) by (simp add: labelled_def good_fields_set)
qed

definition keeps_valid :: "(gostring \<Rightarrow> gostring) \<Rightarrow> bool" where
  "keeps_valid resolve \<longleftrightarrow>
     (\<forall>s. prefix ''/'' s \<longrightarrow> valid_utf8 s \<longrightarrow> valid_utf8 (resolve s))"

lemma good_resolved_bind:
  assumes "bind_ok ok v" "good_value depth v" "\<And>s. ok s \<Longrightarrow> prefix ''/'' s" "keeps_valid resolve"
  shows "good_value depth (resolved_bind resolve v)"
proof (cases v)
  case (JStr b)
  let ?ps = "split_on CHR '':'' b"
  have "list_all valid_utf8 ?ps" using assms(2) JStr by (simp add: valid_split_on)
  then have "valid_utf8 (hd ?ps)" "list_all valid_utf8 (tl ?ps)"
    by (cases ?ps; simp)+
  moreover have "prefix ''/'' (hd ?ps)" using assms(1,3) JStr by (simp add: bind_ok_def)
  ultimately have "valid_utf8 (join_with CHR '':'' (resolve (hd ?ps) # tl ?ps))"
    using assms(4) by (intro valid_join_with) (simp_all add: keeps_valid_def)
  then show ?thesis using JStr by (simp add: resolved_bind_def Let_def)
qed (use assms(1) in \<open>simp_all add: bind_ok_def\<close>)

lemma good_resolved_mount:
  assumes "mount_ok ok v" "good_value depth v" "\<And>s. ok s \<Longrightarrow> prefix ''/'' s" "keeps_valid resolve"
  shows "good_value depth (resolved_mount resolve v)"
proof (cases v)
  case (JObj m)
  show ?thesis
  proof (cases "str_or_empty (field_or_nil m ''Type'') = ''bind''")
    case True
    let ?s = "str_or_empty (field_or_nil m ''Source'')"
    have "prefix ''/'' ?s" using assms(1,3) JObj True by (simp add: mount_ok_def)
    moreover have "valid_utf8 ?s"
      using assms(2) JObj good_field [of "depth + 1" m "''Source''"]
      by (auto simp: str_or_empty_def field_or_nil_def good_obj_iff json_simps split: option.split)
    ultimately have "valid_utf8 (resolve ?s)" using assms(4) by (simp add: keeps_valid_def)
    then show ?thesis
      using assms(2) JObj True by (simp add: resolved_mount_def good_obj_iff good_fields_set)
  qed (use assms(2) JObj in \<open>simp add: resolved_mount_def\<close>)
qed (use assms(1) in \<open>simp_all add: mount_ok_def\<close>)

lemma good_map_field:
  assumes "list_ok name ok m" "good_fields depth m" "valid_utf8 name"
    and "\<And>v. ok v \<Longrightarrow> good_value (depth + 1) v \<Longrightarrow> good_value (depth + 1) (f v)"
  shows "good_fields depth (map_field name f m)"
proof (cases "present m name")
  case (Some v)
  then obtain vs where vs: "v = JArr vs" "list_all ok vs"
    using assms(1) by (cases v) (auto simp: list_ok_def)
  moreover have "good_value depth (JArr vs)"
    using Some vs good_field [OF assms(2)] by (fastforce simp: present_Some)
  ultimately have "good_value depth (JArr (map f vs))"
    using assms(4) by (auto simp: good_arr_iff list_all_iff)
  then show ?thesis
    using Some vs assms(2,3) by (simp add: map_field_def good_fields_set)
qed (use assms(2) in \<open>simp add: map_field_def\<close>)

lemma good_resolved_host_config:
  assumes "host_config_ok ok user m" "good_fields 1 m" "\<And>s. ok s \<Longrightarrow> prefix ''/'' s" "keeps_valid resolve"
  shows "good_fields 1 (resolved_host_config resolve m)"
proof (cases "present m ''HostConfig''")
  case (Some v)
  then obtain hc where v: "v = JObj hc"
    using assms(1) by (cases v) (auto simp: host_config_ok_def)
  let ?b = "map_field ''Binds'' (resolved_bind resolve) hc"
  have "good_value 1 (JObj hc)"
    using Some v good_field [OF assms(2)] by (fastforce simp: present_Some)
  then have hc: "good_fields 2 hc" by (simp add: good_obj_iff)
  have ok: "list_ok ''Binds'' (bind_ok ok) hc" "list_ok ''Mounts'' (mount_ok ok) hc"
    using assms(1) Some v by (simp_all add: host_config_ok_def)
  have "good_fields 2 ?b"
    by (rule good_map_field [OF ok(1) hc]) (simp_all add: good_resolved_bind assms(3,4))
  then have "good_fields 2 (map_field ''Mounts'' (resolved_mount resolve) ?b)"
    by (rule good_map_field [of _ "mount_ok ok", rotated])
      (simp_all add: good_resolved_mount assms(3,4) ok(2) list_ok_map_field_other)
  then have "good_value 1 (JObj (map_field ''Mounts'' (resolved_mount resolve) ?b))"
    by (simp add: good_obj_iff max_depth_def)
  then show ?thesis
    using Some v assms(2) by (simp add: resolved_host_config_def good_fields_set)
qed (use assms(2) in \<open>simp add: resolved_host_config_def\<close>)

section \<open>The functions on bytes\<close>

definition with_json_body ::
  "(gostring \<Rightarrow> fields option \<Rightarrow> fields res) \<Rightarrow> gostring \<Rightarrow> gostring \<Rightarrow> gostring res" where
  "with_json_body check user body =
     (if max_body_size < int (length body)
      then reject 413 (''isolator: request body too large ('' @ itoa (int (length body)) @ '' bytes)'')
      else case unmarshal_map body of
             None \<Rightarrow> reject 400 ''isolator: invalid JSON body''
           | Some raw \<Rightarrow> res_bind (check user raw) (\<lambda>out. Inr (marshal (JObj out))))"

definition CheckCreate :: "path_config \<Rightarrow> fsys \<Rightarrow> gostring \<Rightarrow> gostring \<Rightarrow> gostring res" where
  "CheckCreate cfg fs body user =
     with_json_body (check_create_raw (resolve_path fs) (is_path_allowed cfg fs)) user body"

definition CheckNetworkCreate :: "gostring \<Rightarrow> gostring \<Rightarrow> gostring res" where
  "CheckNetworkCreate body user = with_json_body check_network_raw user body"

section \<open>The contract the two share\<close>

locale body_check =
  fixes check :: "gostring \<Rightarrow> fields option \<Rightarrow> fields res"
    and suited :: "gostring \<Rightarrow> bool"
  assumes check_nil: "check user None \<noteq> Inr out"
    and check_owner: "check user raw = Inr out \<Longrightarrow> owner_of out = Some user"
    and check_good: "suited user \<Longrightarrow> good_fields 1 m \<Longrightarrow> check user (Some m) = Inr out \<Longrightarrow>
        good_fields 1 out"
    and check_status: "check user (Some m) = Inl e \<Longrightarrow> client_error e"
begin

lemma accepted_body:
  assumes "with_json_body check user body = Inr out"
  obtains m raw where "unmarshal_map body = Some (Some m)" "good_fields 1 m"
    "check user (Some m) = Inr raw" "out = marshal (JObj raw)"
proof -
  obtain r raw where r: "unmarshal_map body = Some r" "check user r = Inr raw"
    "out = marshal (JObj raw)"
    using assms by (auto simp: with_json_body_def res_bind_Inr split: if_splits option.splits)
  then obtain m where m: "r = Some m" using check_nil by (cases r) auto
  then have "unmarshal body = Some (JObj m)"
    using r(1) by (auto simp: unmarshal_map_def split: option.splits json.splits)
  from unmarshal_good [OF this] have "good_value 0 (JObj m)" by (simp only: good_value_def)
  then show thesis using that r m by (simp add: good_obj_iff)
qed

lemma forwarded_body:
  assumes "with_json_body check user body = Inr out" "suited user"
  obtains m raw where "unmarshal_map body = Some (Some m)" "check user (Some m) = Inr raw"
    "wf_fields m" "wf_fields raw" "unmarshal_map out = Some (Some (norm_fields raw))"
    "out = marshal (JObj raw)"
proof -
  from accepted_body [OF assms(1)] obtain m raw where m: "unmarshal_map body = Some (Some m)"
    "good_fields 1 m" "check user (Some m) = Inr raw" "out = marshal (JObj raw)" .
  have raw: "good_fields 1 raw" by (rule check_good [OF assms(2) m(2,3)])
  then have "good_value 0 (JObj raw)" by (simp add: good_obj_iff max_depth_def)
  then have "unmarshal out = Some (JObj (norm_fields raw))"
    unfolding m(4) good_value_def using unmarshal_marshal [of "JObj raw"] norm_JObj by simp
  then show thesis
    using that [OF m(1,3) good_wf_fields [OF m(2)] good_wf_fields [OF raw] _ m(4)]
    by (simp add: unmarshal_map_def)
qed

lemma forwarded_owner:
  assumes "with_json_body check user body = Inr out" "suited user"
  shows "\<exists>m. unmarshal_map out = Some (Some m) \<and> owner_of m = Some user"
proof -
  from forwarded_body [OF assms] obtain m raw where "check user (Some m) = Inr raw" "wf_fields raw"
    "unmarshal_map out = Some (Some (norm_fields raw))" .
  then show ?thesis using check_owner by (simp add: owner_of_norm)
qed

lemma body_status:
  assumes "with_json_body check user body = Inl (CreateError status msg)"
    and "check user None = Inl (CreateError status msg) \<Longrightarrow> status \<in> {400, 403}"
  shows "status \<in> {400, 403, 413}"
proof -
  have "status \<in> {400, 403}" if "check user raw = Inl (CreateError status msg)" for raw
    using check_status [of user _ "CreateError status msg"] that assms(2) by (cases raw) auto
  then show ?thesis
    using assms(1) by (auto simp: with_json_body_def res_bind_Inl split: if_splits option.splits)
qed

end

lemma create_body_check: "body_check (check_create_raw resolve allowed)
    (\<lambda>user. valid_utf8 user \<and> keeps_valid resolve)"
proof
  show "check_create_raw resolve allowed user None \<noteq> Inr out" for user out
    by (simp add: check_create_raw_nil)
  show "check_create_raw resolve allowed user raw = Inr out \<Longrightarrow> owner_of out = Some user" for user raw out
    by (auto simp: check_create_raw_Inr split: option.splits)
  show "good_fields 1 out"
    if "valid_utf8 user \<and> keeps_valid resolve" "good_fields 1 m"
      "check_create_raw resolve allowed user (Some m) = Inr out" for user m out
  proof -
    have ok: "host_config_ok (source_ok resolve allowed user) user m"
      and out: "out = labelled user (resolved_host_config resolve m)"
      using that(3) by (simp_all add: check_create_raw_Inr create_ok_def)
    then have "good_fields 1 (resolved_host_config resolve m)"
      using that(1,2) by (intro good_resolved_host_config [OF ok]) (auto simp: source_ok_def)
    then show ?thesis unfolding out using that(1) by (intro good_labelled) simp_all
  qed
  show "check_create_raw resolve allowed user (Some m) = Inl e \<Longrightarrow> client_error e" for user m e
    by (rule check_create_raw_Inl)
qed

interpretation create_body: body_check "check_create_raw resolve allowed"
    "\<lambda>user. valid_utf8 user \<and> keeps_valid resolve" for resolve allowed
  by (rule create_body_check)

interpretation network_body: body_check check_network_raw valid_utf8
proof
  show "check_network_raw user raw = Inr out \<Longrightarrow> owner_of out = Some user" for user raw out
    by (auto simp: check_network_raw_Inr split: option.splits)
qed (auto simp: check_network_raw_Inr intro: good_labelled check_network_raw_Inl)

end
