(* ===== verification/Url.thy ===== *)
theory Url
  imports Prelude
begin

text \<open>
  Go's \<open>net/url\<close> as far as the proxy uses it: percent decoding and encoding of paths and
  query components, \<open>url.ParseQuery\<close>, the parsing of an origin-form request target
  (\<open>/path?query\<close>) into a \<open>URL\<close>, and \<open>URL.RequestURI\<close>, from which the allowlist reads.
  The router reads the decoded \<open>URL.Path\<close>, so the lemmas here relate the two views of a
  request target.
\<close>

section \<open>Percent encoding\<close>

definition unhex :: "char \<Rightarrow> nat option" where
  "unhex c =
     (let n = of_char c in
      if 48 \<le> n \<and> n \<le> 57 then Some (n - 48)
      else if 97 \<le> n \<and> n \<le> 102 then Some (n - 97 + 10)
      else if 65 \<le> n \<and> n \<le> 70 then Some (n - 65 + 10)
      else None)"

definition upper_hex :: "nat \<Rightarrow> char" where
  "upper_hex n = (if n < 10 then byte (48 + n) else byte (65 + (n - 10)))"

text \<open>\<open>unescape(s, mode)\<close>: the flag says whether the mode is \<open>encodeQueryComponent\<close>, where
  a plus sign stands for a space.  \<open>None\<close> is the \<open>EscapeError\<close>.\<close>

fun unescape :: "bool \<Rightarrow> gostring \<Rightarrow> gostring option" where
  "unescape q [] = Some []"
| "unescape q (c # s) =
     (if c = CHR ''%'' then
        (case s of
           a # b # t \<Rightarrow>
             (case (unhex a, unhex b) of
                (Some i, Some j) \<Rightarrow> map_option (\<lambda>r. byte (16 * i + j) # r) (unescape q t)
              | _ \<Rightarrow> None)
         | _ \<Rightarrow> None)
      else map_option (\<lambda>r. (if q \<and> c = CHR ''+'' then CHR '' '' else c) # r) (unescape q s))"

text \<open>\<open>shouldEscape(c, encodePath)\<close>, \<open>escape(s, encodePath)\<close> and \<open>validEncoded\<close>.\<close>

definition is_letter_or_digit :: "char \<Rightarrow> bool" where
  "is_letter_or_digit c =
     (let n = of_char c :: nat in
      97 \<le> n \<and> n \<le> 122 \<or> 65 \<le> n \<and> n \<le> 90 \<or> 48 \<le> n \<and> n \<le> 57)"

text \<open>The same with the bytes compared by their bits, for evaluation.\<close>

lemma is_letter_or_digit_code [code]:
  "is_letter_or_digit c \<longleftrightarrow>
     (let b = char_bits c in
      bits_le (char_bits CHR ''a'') b \<and> bits_le b (char_bits CHR ''z'')
      \<or> bits_le (char_bits CHR ''A'') b \<and> bits_le b (char_bits CHR ''Z'')
      \<or> bits_le (char_bits CHR ''0'') b \<and> bits_le b (char_bits CHR ''9''))"
  unfolding is_letter_or_digit_def Let_def char_le_bits [symmetric] by simp

definition should_escape :: "char \<Rightarrow> bool" where
  "should_escape c = (\<not> is_letter_or_digit c \<and> c \<notin> set ''-_.~$&+,/:;=@'')"

fun escape :: "gostring \<Rightarrow> gostring" where
  "escape [] = []"
| "escape (c # s) =
     (if should_escape c
      then [CHR ''%'', upper_hex (of_char c div 16), upper_hex (of_char c mod 16)] @ escape s
      else c # escape s)"

definition valid_encoded :: "gostring \<Rightarrow> bool" where
  "valid_encoded s = list_all (\<lambda>c. c \<in> set ''!$&'' \<or> c = CHR 0x27 \<or> c \<in> set ''()*+,;=:@[]%'' \<or> \<not> should_escape c) s"

lemma unhex_upper_hex: "n < 16 \<Longrightarrow> unhex (upper_hex n) = Some n"
  by (auto simp: unhex_def upper_hex_def byte_def Let_def)

lemma should_escape_percent [simp]: "should_escape CHR ''%''"
  by code_simp

lemma unescape_plain: "CHR ''%'' \<notin> set s \<Longrightarrow> unescape False s = Some s"
  by (induction s) auto

lemma escape_no_percent: "CHR ''%'' \<notin> set (escape s) \<Longrightarrow> escape s = s"
  by (induction s) (auto split: if_splits)

lemma unescape_escape [simp]: "unescape False (escape s) = Some s"
proof (induction s)
  case Nil
  then show ?case by simp
next
  case (Cons c s)
  have "byte (16 * (of_char c div 16) + of_char c mod 16) = c"
    by (simp add: byte_def)
  moreover have "(of_char c :: nat) div 16 < 16" and "(of_char c :: nat) mod 16 < 16"
    using nat_of_char_less_256 [of c] by auto
  ultimately show ?case
    using Cons by (auto simp: unhex_upper_hex)
qed

lemma unescape_append:
  "unescape q s = Some a \<Longrightarrow> unescape q t = Some b \<Longrightarrow> unescape q (s @ t) = Some (a @ b)"
  by (induction q s arbitrary: a rule: unescape.induct)
     (auto split: if_splits list.splits option.splits)

section \<open>Query strings\<close>

type_synonym url_values = "(gostring \<times> gostring list) list"

definition values_add :: "url_values \<Rightarrow> gostring \<Rightarrow> gostring \<Rightarrow> url_values" where
  "values_add m k v =
     AList.update k ((case map_of m k of Some vs \<Rightarrow> vs | None \<Rightarrow> []) @ [v]) m"

text \<open>One \<open>key=value\<close> piece of the query: the new map, and whether it is malformed.\<close>

definition query_piece :: "url_values \<Rightarrow> gostring \<Rightarrow> url_values \<times> bool" where
  "query_piece m piece =
     (if CHR '';'' \<in> set piece then (m, True)
      else if piece = [] then (m, False)
      else case cut_at CHR ''='' piece of (k, v, found) \<Rightarrow>
        (case unescape True k of
           None \<Rightarrow> (m, True)
         | Some k' \<Rightarrow>
             (case unescape True v of
                None \<Rightarrow> (m, True)
              | Some v' \<Rightarrow> (values_add m k' v', False))))"

text \<open>\<open>url.ParseQuery\<close>: a malformed piece is skipped and makes the call return an error.\<close>

function parse_query_loop :: "url_values \<Rightarrow> bool \<Rightarrow> gostring \<Rightarrow> url_values \<times> bool" where
  "parse_query_loop m bad query =
     (if query = [] then (m, bad)
      else case cut_at CHR ''&'' query of (piece, rest, found) \<Rightarrow>
        (case query_piece m piece of (m', bad') \<Rightarrow> parse_query_loop m' (bad \<or> bad') rest))"
  by pat_completeness auto
termination
  by (relation "measure (\<lambda>(m, bad, query). length query)")
     (auto dest: cut_at_rest_less [OF _ sym])

declare parse_query_loop.simps [simp del]

definition parse_query :: "gostring \<Rightarrow> url_values option" where
  "parse_query query =
     (case parse_query_loop [] False query of (m, bad) \<Rightarrow> if bad then None else Some m)"

text \<open>\<open>Values.Get\<close>: the first value of the key, or the empty string.\<close>

definition values_get :: "url_values \<Rightarrow> gostring \<Rightarrow> gostring" where
  "values_get m k = (case map_of m k of Some (v # vs) \<Rightarrow> v | _ \<Rightarrow> [])"

text \<open>
  The loop is a fold over the pieces between the ampersands, so a query is read off its list
  of pieces: it is malformed when some piece is, and otherwise maps every key to the values
  bound to it, in order.
\<close>

definition query_pieces :: "gostring \<Rightarrow> gostring list" where
  "query_pieces query = filter (\<lambda>p. p \<noteq> []) (split_on CHR ''&'' query)"

definition decode_piece :: "gostring \<Rightarrow> (gostring \<times> gostring) option" where
  "decode_piece piece =
     (if CHR '';'' \<in> set piece then None
      else case cut_at CHR ''='' piece of (k, v, found) \<Rightarrow>
        (case (unescape True k, unescape True v) of
           (Some k', Some v') \<Rightarrow> Some (k', v')
         | _ \<Rightarrow> None))"

definition values_of :: "(gostring \<times> gostring) list \<Rightarrow> gostring \<Rightarrow> gostring list" where
  "values_of kvs k = map snd (filter (\<lambda>kv. fst kv = k) kvs)"

lemma cut_at_split:
  "cut_at sep s = (a, b, f) \<Longrightarrow>
     split_on sep s = (if f then a # split_on sep b else [a]) \<and> (\<not> f \<longrightarrow> b = [])"
  by (induction s arbitrary: a b f) (auto split: if_splits prod.splits)

lemma query_piece_decode:
  "piece \<noteq> [] \<Longrightarrow> query_piece m piece =
     (case decode_piece piece of None \<Rightarrow> (m, True) | Some (k, v) \<Rightarrow> (values_add m k v, False))"
  by (auto simp: query_piece_def decode_piece_def split: prod.splits option.splits)

lemma query_piece_empty [simp]: "query_piece m [] = (m, False)"
  by (simp add: query_piece_def)

fun query_step :: "gostring \<Rightarrow> url_values \<times> bool \<Rightarrow> url_values \<times> bool" where
  "query_step p (m, bad) =
     (case decode_piece p of None \<Rightarrow> (m, True) | Some (k, v) \<Rightarrow> (values_add m k v, bad))"

lemma parse_query_loop_fold:
  "parse_query_loop m bad query = fold query_step (query_pieces query) (m, bad)"
proof (induction m bad query rule: parse_query_loop.induct)
  case (1 m bad query)
  show ?case
  proof (cases "query = []")
    case True
    then show ?thesis by (simp add: parse_query_loop.simps query_pieces_def)
  next
    case False
    obtain piece rest found where cut: "cut_at CHR ''&'' query = (piece, rest, found)"
      by (cases "cut_at CHR ''&'' query")
    obtain m1 bad1 where piece: "query_piece m piece = (m1, bad1)"
      by (cases "query_piece m piece")
    have IH: "parse_query_loop m1 (bad \<or> bad1) rest =
        fold query_step (query_pieces rest) (m1, bad \<or> bad1)"
      using "1" [OF False cut [symmetric] refl piece [symmetric]] .
    have pieces: "query_pieces query = (if piece = [] then [] else [piece]) @ query_pieces rest"
      using cut_at_split [OF cut] by (cases found) (auto simp: query_pieces_def)
    have "piece \<noteq> [] \<Longrightarrow> query_step piece (m, bad) = (m1, bad \<or> bad1)"
      using piece query_piece_decode [of piece m] by (auto split: option.splits)
    moreover have "piece = [] \<Longrightarrow> m1 = m \<and> \<not> bad1"
      using piece by auto
    ultimately show ?thesis
      using IH False cut piece
      by (cases "piece = []") (simp_all add: parse_query_loop.simps [of m bad query] pieces)
  qed
qed

lemma map_of_values_add:
  "map_of (values_add m k v) k' =
     (if k' = k then Some ((case map_of m k of Some vs \<Rightarrow> vs | None \<Rightarrow> []) @ [v]) else map_of m k')"
  by (simp add: values_add_def update_conv')

text \<open>The values a key is bound to after some bindings, given those it had before.\<close>

fun extend_values :: "gostring list option \<Rightarrow> gostring list \<Rightarrow> gostring list option" where
  "extend_values None [] = None"
| "extend_values None (v # vs) = Some (v # vs)"
| "extend_values (Some us) vs = Some (us @ vs)"

lemma extend_values_step:
  "Some ((case old of Some us \<Rightarrow> us | None \<Rightarrow> []) @ [v]) = extend_values old [v]"
  "extend_values (extend_values old [v]) vs = extend_values old (v # vs)"
  by (cases old; simp)+

lemma fold_query_bad: "snd (fold query_step ps (m, bad)) \<longleftrightarrow> bad \<or> (\<exists>p \<in> set ps. decode_piece p = None)"
  by (induction ps arbitrary: m bad) (auto split: option.splits)

lemma fold_query_map:
  "\<forall>p \<in> set ps. decode_piece p \<noteq> None \<Longrightarrow>
     map_of (fst (fold query_step ps (m, bad))) k =
       extend_values (map_of m k) (values_of (map (the \<circ> decode_piece) ps) k)"
proof (induction ps arbitrary: m bad)
  case Nil
  then show ?case by (cases "map_of m k") (auto simp: values_of_def)
next
  case (Cons p ps)
  then obtain a v where "decode_piece p = Some (a, v)" by auto
  with Cons show ?case
    by (auto simp: map_of_values_add values_of_def extend_values_step)
qed

text \<open>\<open>url.ParseQuery\<close> fails exactly on a query with a malformed piece, and otherwise binds
  every key to its values in order.\<close>

lemma parse_query_None:
  "parse_query query = None \<longleftrightarrow> (\<exists>p \<in> set (query_pieces query). decode_piece p = None)"
  using fold_query_bad [of "query_pieces query" "[]" False]
  by (auto simp: parse_query_def parse_query_loop_fold split: prod.splits)

lemma parse_query_map_of:
  assumes "parse_query query = Some m"
  shows "map_of m k = extend_values None (values_of (map (the \<circ> decode_piece) (query_pieces query)) k)"
  using assms fold_query_map [of "query_pieces query" "[]" False k] parse_query_None [of query]
  by (auto simp: parse_query_def parse_query_loop_fold split: prod.splits if_splits)

section \<open>Request targets\<close>

record url =
  url_scheme :: gostring
  url_opaque :: gostring
  url_host :: gostring
  url_path :: gostring
  url_raw_path :: gostring
  url_force_query :: bool
  url_raw_query :: gostring

definition escaped_path :: "url \<Rightarrow> gostring" where
  "escaped_path u =
     (if url_raw_path u \<noteq> [] \<and> valid_encoded (url_raw_path u)
         \<and> unescape False (url_raw_path u) = Some (url_path u) then url_raw_path u
      else if url_path u = ''*'' then ''*''
      else escape (url_path u))"

definition request_uri :: "url \<Rightarrow> gostring" where
  "request_uri u =
     (let result =
        (if url_opaque u = [] then (if escaped_path u = [] then ''/'' else escaped_path u)
         else if prefix ''//'' (url_opaque u) then url_scheme u @ '':'' @ url_opaque u
         else url_opaque u)
      in if url_force_query u \<or> url_raw_query u \<noteq> [] then result @ ''?'' @ url_raw_query u
         else result)"

text \<open>\<open>URL.setPath\<close> and \<open>url.ParseRequestURI\<close> on an origin-form target, the form every HTTP
  client of the proxy's socket sends.\<close>

definition set_path :: "gostring \<Rightarrow> (gostring \<times> gostring) option" where
  "set_path p =
     map_option (\<lambda>path. (path, if escape path = p then [] else p)) (unescape False p)"

definition is_ctl :: "char \<Rightarrow> bool" where
  "is_ctl c \<longleftrightarrow> (of_char c :: nat) < 32 \<or> (of_char c :: nat) = 127"

lemma is_ctl_code [code]: "is_ctl c \<longleftrightarrow> is_control c \<or> c = CHR 0x7F"
proof -
  have "(of_char c :: nat) = 127 \<longleftrightarrow> c = CHR 0x7F"
    using of_char_eq_iff [of c "CHR 0x7F", where 'a = nat] by simp
  then show ?thesis by (simp add: is_ctl_def is_control_iff)
qed

definition parse_origin_form :: "gostring \<Rightarrow> url option" where
  "parse_origin_form target =
     (if list_ex is_ctl target \<or> \<not> prefix ''/'' target then None
      else case cut_at CHR ''?'' target of (p, query, found) \<Rightarrow>
        map_option
          (\<lambda>(path, raw). \<lparr>url_scheme = [], url_opaque = [], url_host = [], url_path = path,
             url_raw_path = raw, url_force_query = (found \<and> query = []),
             url_raw_query = query\<rparr>)
          (set_path p))"

lemma unescape_escaped_path:
  "url_path u \<noteq> ''*'' \<Longrightarrow> unescape False (escaped_path u) = Some (url_path u)"
  by (auto simp: escaped_path_def)

text \<open>A target whose escaped path has no percent sign is routed on the very bytes that the
  allowlist looked at.\<close>

lemma escaped_path_plain:
  assumes "CHR ''%'' \<notin> set (escaped_path u)"
  shows "url_path u = escaped_path u"
proof (cases "url_path u = ''*''")
  case True
  then show ?thesis using assms by (auto simp: escaped_path_def unescape_plain)
next
  case False
  then show ?thesis
    using unescape_escaped_path [OF False] unescape_plain [OF assms] by simp
qed

lemma upper_hex_not_query: "n < 16 \<Longrightarrow> upper_hex n \<noteq> CHR ''?''"
  using unhex_upper_hex [of n] by (auto simp: unhex_def)

lemma escape_no_query: "CHR ''?'' \<notin> set (escape s)"
proof (induction s)
  case Nil
  then show ?case by simp
next
  case (Cons c s)
  have "should_escape CHR ''?''" by code_simp
  moreover have "(of_char c :: nat) div 16 < 16"
    by (rule char_high_nibble)
  ultimately show ?case
    using Cons.IH upper_hex_not_query [of "of_char c div 16"] upper_hex_not_query [of "of_char c mod 16"]
    by auto
qed

lemma escaped_path_no_query: "CHR ''?'' \<notin> set (escaped_path u)"
proof -
  have "should_escape CHR ''?''" by code_simp
  then have "CHR ''?'' \<notin> set s" if "valid_encoded s" for s
    using that unfolding valid_encoded_def list_all_iff by (cases "CHR ''?'' \<in> set s") (drule (1) bspec, simp, simp)
  then show ?thesis
    by (auto simp: escaped_path_def escape_no_query)
qed

text \<open>What the allowlist recovers as path and query from the request URI.\<close>

lemma cut_request_uri:
  assumes "url_opaque u = []" "escaped_path u \<noteq> []"
  shows "cut_at CHR ''?'' (request_uri u) =
    (escaped_path u, url_raw_query u, url_force_query u \<or> url_raw_query u \<noteq> [])"
  using assms escaped_path_no_query [of u]
  by (auto simp: request_uri_def Let_def cut_at_free cut_at_found)

text \<open>A target without a query in which no byte needs an escape is its own path.\<close>

definition plain_target :: "gostring \<Rightarrow> bool" where
  "plain_target t \<longleftrightarrow> prefix ''/'' t \<and> list_all (\<lambda>c. \<not> should_escape c) t"

lemma plain_target_char:
  "\<not> should_escape c \<Longrightarrow> c \<noteq> CHR ''%'' \<and> c \<noteq> CHR ''?'' \<and> \<not> is_ctl c"
  by (auto simp: should_escape_def is_letter_or_digit_def is_ctl_def Let_def)

lemma cut_at_absent: "c \<notin> set s \<Longrightarrow> cut_at c s = (s, [], False)"
  by (induction s) auto

lemma escape_unneeded: "list_all (\<lambda>c. \<not> should_escape c) t \<Longrightarrow> escape t = t"
  by (induction t) auto

definition plain_url :: "gostring \<Rightarrow> url" where
  "plain_url t =
     \<lparr>url_scheme = [], url_opaque = [], url_host = [], url_path = t, url_raw_path = [],
       url_force_query = False, url_raw_query = []\<rparr>"

lemma parse_plain_target:
  assumes "plain_target t"
  shows "parse_origin_form t = Some (plain_url t)" "request_uri (plain_url t) = t"
proof -
  have t: "prefix ''/'' t" "list_all (\<lambda>c. \<not> should_escape c) t" using assms by (simp_all add: plain_target_def)
  then have "CHR ''%'' \<notin> set t" "CHR ''?'' \<notin> set t" "\<not> list_ex is_ctl t"
    using plain_target_char by (fastforce simp: list_all_iff list_ex_iff)+
  then show "parse_origin_form t = Some (plain_url t)"
    using t(1) escape_unneeded [OF t(2)] unescape_plain [of t]
    by (simp add: parse_origin_form_def cut_at_absent set_path_def plain_url_def)
  have "t \<noteq> ''*''" "t \<noteq> []" using t(1) by auto
  then show "request_uri (plain_url t) = t"
    using escape_unneeded [OF t(2)] by (simp add: request_uri_def escaped_path_def plain_url_def)
qed

end
