(* ===== verification/Allowlist.thy ===== *)
theory Allowlist
  imports Regex Url
begin

text \<open>
  The endpoint allowlist, \<open>internal/proxy/allowlist.go\<close>: one expression per route and
  \<open>is_endpoint_allowed\<close>, the default-deny chain of first matches over method, path and
  query.  The lemmas give each expression's language as a set of rests behind the version
  prefix, so that a path is classified once (\<open>version_split\<close>, \<open>cut_at\<close>) and the chain is
  compared with the endpoint tables of the specification (\<open>endpoint_spec\<close>).
\<close>

section \<open>The route expressions\<close>

abbreviation re_version :: rexp where
  "re_version \<equiv> RSeq (lit ''/v'') (plus (RSet ver_char))"

abbreviation re_tail :: rexp where
  "re_tail \<equiv> opt (RSeq (lit ''/'') (RStar (RSet any_char)))"

abbreviation re_name :: rexp where
  "re_name \<equiv> plus (RSet name_char)"

abbreviation re_image :: rexp where
  "re_image \<equiv> plus (RSet image_char)"

definition reSystemVersioned :: rexp where
  "reSystemVersioned = RSeq re_version (RSeq (lit ''/'')
     (alts (map lit [''_ping'', ''version'', ''info'', ''system/df'', ''system/events''])))"

definition reAuth :: rexp where
  "reAuth = RSeq (opt re_version) (lit ''/auth'')"

definition reContainersList :: rexp where
  "reContainersList = RSeq re_version (lit ''/containers/json'')"

definition reContainersCreate :: rexp where
  "reContainersCreate = RSeq re_version (lit ''/containers/create'')"

definition container_actions :: "gostring list" where
  "container_actions = [''start'', ''stop'', ''restart'', ''kill'', ''pause'', ''unpause'',
     ''wait'', ''attach'', ''logs'', ''inspect'', ''stats'', ''top'', ''changes'', ''export'',
     ''exec'', ''json'']"

definition reContainerAction :: rexp where
  "reContainerAction = RSeq re_version (RSeq (lit ''/containers/'') (RSeq re_name
     (RSeq (lit ''/'') (RSeq (alts (map lit container_actions)) re_tail))))"

definition reContainerDelete :: rexp where
  "reContainerDelete = RSeq re_version (RSeq (lit ''/containers/'') re_name)"

definition reExecAction :: rexp where
  "reExecAction = RSeq re_version (RSeq (lit ''/exec/'') (RSeq re_name
     (RSeq (lit ''/'') (alts (map lit [''start'', ''resize'', ''json''])))))"

definition reImagesList :: rexp where
  "reImagesList = RSeq re_version (lit ''/images/json'')"

definition reImagesCreate :: rexp where
  "reImagesCreate = RSeq re_version (lit ''/images/create'')"

definition reImageInspect :: rexp where
  "reImageInspect = RSeq re_version (RSeq (lit ''/images/'') (RSeq re_image (lit ''/json'')))"

definition reImagePush :: rexp where
  "reImagePush = RSeq re_version (RSeq (lit ''/images/'') (RSeq re_image (lit ''/push'')))"

definition reNetworksList :: rexp where
  "reNetworksList = RSeq re_version (RSeq (lit ''/networks'') (opt (lit ''/json'')))"

definition reNetworksCreate :: rexp where
  "reNetworksCreate = RSeq re_version (lit ''/networks/create'')"

definition reNetworkInspect :: rexp where
  "reNetworkInspect = RSeq re_version (RSeq (lit ''/networks/'') re_name)"

definition reNetworkConnect :: rexp where
  "reNetworkConnect = RSeq re_version (RSeq (lit ''/networks/'') (RSeq re_name
     (RSeq (lit ''/'') (alts (map lit [''connect'', ''disconnect''])))))"

definition reBuild :: rexp where
  "reBuild = RSeq re_version (lit ''/build'')"

definition reImagesLoad :: rexp where
  "reImagesLoad = RSeq re_version (lit ''/images/load'')"

definition reVolumes :: rexp where
  "reVolumes = RSeq re_version (RSeq (lit ''/volumes'') re_tail)"

definition reEvents :: rexp where
  "reEvents = RSeq re_version (lit ''/events'')"

text \<open>\<open>regexp.QuoteMeta\<close> makes the user name a literal.\<close>

definition userIsoNetworkRegex :: "gostring \<Rightarrow> rexp" where
  "userIsoNetworkRegex user = RSeq re_version (RSeq (lit (''/networks/iso-'' @ user)) re_tail)"

section \<open>The decision\<close>

definition imagesCreateQueryAllowed :: "gostring \<Rightarrow> bool" where
  "imagesCreateQueryAllowed rawQuery =
     (case parse_query rawQuery of
        None \<Rightarrow> False
      | Some vals \<Rightarrow>
          if map_of vals ''fromSrc'' \<noteq> None then False
          else if \<not> list_all (\<lambda>(k, _). k \<in> set [''fromImage'', ''tag'', ''platform'']) vals
          then False
          else values_get vals ''fromImage'' \<noteq> [])"

definition path_and_query :: "gostring \<Rightarrow> gostring \<times> gostring" where
  "path_and_query uri = (case cut_at CHR ''?'' uri of (path, query, found) \<Rightarrow> (path, query))"

definition path_allowed :: "gostring \<Rightarrow> gostring \<Rightarrow> gostring \<Rightarrow> gostring \<Rightarrow> bool" where
  "path_allowed meth path rawQuery user =
     (if path = ''/_ping'' then meth = ''HEAD'' \<or> meth = ''GET''
      else if path = ''/info'' then meth = ''GET''
      else if re_match reAuth path then meth = ''POST''
      else if re_match reSystemVersioned path then meth = ''GET''
      else if re_match reContainersList path then meth = ''GET''
      else if re_match reContainersCreate path then meth = ''POST''
      else if re_match reContainerAction path then meth = ''GET'' \<or> meth = ''POST''
      else if re_match reContainerDelete path then meth = ''DELETE''
      else if re_match reExecAction path then meth = ''GET'' \<or> meth = ''POST''
      else if re_match reImagesList path then meth = ''GET''
      else if re_match reImageInspect path then meth = ''GET''
      else if re_match reImagesCreate path then
        (if meth \<noteq> ''POST'' then False else imagesCreateQueryAllowed rawQuery)
      else if re_match reImagePush path then meth = ''POST''
      else if re_match reNetworksCreate path then meth = ''POST''
      else if re_match reNetworksList path then meth = ''GET''
      else if re_match reNetworkConnect path then meth = ''POST''
      else if re_match (userIsoNetworkRegex user) path then True
      else if re_match reNetworkInspect path then meth = ''GET'' \<or> meth = ''DELETE''
      else if re_match reBuild path then meth = ''POST''
      else if re_match reImagesLoad path then meth = ''POST''
      else if re_match reVolumes path then True
      else if re_match reEvents path then meth = ''GET''
      else False)"

definition is_endpoint_allowed :: "gostring \<Rightarrow> gostring \<Rightarrow> gostring \<Rightarrow> bool" where
  "is_endpoint_allowed meth uri user =
     (case path_and_query uri of (path, rawQuery) \<Rightarrow> path_allowed meth path rawQuery user)"

lemmas route_defs =
  reSystemVersioned_def reAuth_def reContainersList_def reContainersCreate_def
  reContainerAction_def reContainerDelete_def reExecAction_def reImagesList_def
  reImagesCreate_def reImageInspect_def reImagePush_def reNetworksList_def
  reNetworksCreate_def reNetworkInspect_def reNetworkConnect_def reBuild_def
  reImagesLoad_def reVolumes_def reEvents_def userIsoNetworkRegex_def

section \<open>Paths behind a version prefix\<close>

text \<open>\<open>/v<ver>/<rest>\<close> taken apart: the version has no slash, so the split is unique.\<close>

definition version_split :: "gostring \<Rightarrow> (gostring \<times> gostring) option" where
  "version_split p =
     (if prefix ''/v'' p then
        (case cut_at CHR ''/'' (drop 2 p) of (ver, rest, found) \<Rightarrow>
           if found \<and> ver \<noteq> [] \<and> list_all ver_char ver then Some (ver, rest) else None)
      else None)"

lemma ver_char_not_slash [simp]: "\<not> ver_char CHR ''/''"
  and name_char_not_slash [simp]: "\<not> name_char CHR ''/''"
  by code_simp+

lemma cut_at_parts:
  "cut_at sep s = (a, b, f) \<Longrightarrow> s = (if f then a @ sep # b else a) \<and> sep \<notin> set a \<and> (\<not> f \<longrightarrow> b = [])"
  by (induction s arbitrary: a b f) (auto split: if_splits prod.splits)

lemma version_split_Some:
  "version_split p = Some (ver, rest) \<longleftrightarrow>
     p = ''/v'' @ ver @ CHR ''/'' # rest \<and> ver \<noteq> [] \<and> (\<forall>c \<in> set ver. ver_char c)" (is "?l \<longleftrightarrow> ?r")
proof
  assume ?l
  then show ?r
    by (auto simp: version_split_def list_all_iff prefix_def split: if_splits prod.splits
        dest: cut_at_parts)
next
  assume ?r
  moreover from this have "CHR ''/'' \<notin> set ver" using ver_char_not_slash by blast
  ultimately show ?l
    by (simp add: version_split_def cut_at_found list_all_iff)
qed

section \<open>The endpoint tables of the specification\<close>

text \<open>
  \<open>docs/docker-proxy-go-spec.md\<close> section 6, one rule per table row, over explicit paths.
  \<open>rest_spec\<close> speaks of the part behind \<open>/v<ver>/\<close>.
\<close>

definition is_version :: "gostring \<Rightarrow> bool" where
  "is_version v \<longleftrightarrow> v \<noteq> [] \<and> (\<forall>c \<in> set v. ver_char c)"

definition is_name :: "gostring \<Rightarrow> bool" where
  "is_name n \<longleftrightarrow> n \<noteq> [] \<and> (\<forall>c \<in> set n. name_char c)"

definition is_image :: "gostring \<Rightarrow> bool" where
  "is_image n \<longleftrightarrow> n \<noteq> [] \<and> (\<forall>c \<in> set n. image_char c)"

definition is_subpath :: "gostring \<Rightarrow> bool" where
  "is_subpath t \<longleftrightarrow> t = [] \<or> (\<exists>u. t = CHR ''/'' # u \<and> newline \<notin> set u)"

definition action_rest :: "gostring \<Rightarrow> bool" where
  "action_rest r \<longleftrightarrow> (\<exists>n a t. r = ''containers/'' @ n @ ''/'' @ a @ t
     \<and> is_name n \<and> a \<in> set container_actions \<and> is_subpath t)"

definition delete_rest :: "gostring \<Rightarrow> bool" where
  "delete_rest r \<longleftrightarrow> (\<exists>n. r = ''containers/'' @ n \<and> is_name n)"

definition exec_rest :: "gostring \<Rightarrow> bool" where
  "exec_rest r \<longleftrightarrow> (\<exists>n a. r = ''exec/'' @ n @ ''/'' @ a \<and> is_name n \<and> a \<in> {''start'', ''resize'', ''json''})"

definition image_rest :: "gostring \<Rightarrow> gostring \<Rightarrow> bool" where
  "image_rest verb r \<longleftrightarrow> (\<exists>n. r = ''images/'' @ n @ verb \<and> is_image n)"

definition network_rest :: "gostring \<Rightarrow> bool" where
  "network_rest r \<longleftrightarrow> (\<exists>n. r = ''networks/'' @ n \<and> is_name n)"

definition connect_rest :: "gostring \<Rightarrow> bool" where
  "connect_rest r \<longleftrightarrow>
     (\<exists>n a. r = ''networks/'' @ n @ ''/'' @ a \<and> is_name n \<and> a \<in> {''connect'', ''disconnect''})"

definition own_rest :: "gostring \<Rightarrow> gostring \<Rightarrow> bool" where
  "own_rest user r \<longleftrightarrow> (\<exists>t. r = ''networks/iso-'' @ user @ t \<and> is_subpath t)"

definition volumes_rest :: "gostring \<Rightarrow> bool" where
  "volumes_rest r \<longleftrightarrow> (\<exists>t. r = ''volumes'' @ t \<and> is_subpath t)"

lemmas rest_defs = action_rest_def delete_rest_def exec_rest_def image_rest_def
  network_rest_def connect_rest_def own_rest_def volumes_rest_def

inductive rest_spec :: "gostring \<Rightarrow> gostring \<Rightarrow> gostring \<Rightarrow> gostring \<Rightarrow> bool"
  for user :: gostring and query :: gostring where
  sys: "r \<in> {''_ping'', ''version'', ''info'', ''system/df'', ''system/events''} \<Longrightarrow>
     rest_spec user query ''GET'' r"
| auth: "rest_spec user query ''POST'' ''auth''"
| containers_list: "rest_spec user query ''GET'' ''containers/json''"
| containers_create: "rest_spec user query ''POST'' ''containers/create''"
| container_action: "action_rest r \<Longrightarrow> rest_spec user query meth r"
| container_delete: "delete_rest r \<Longrightarrow> rest_spec user query ''DELETE'' r"
| exec_action: "exec_rest r \<Longrightarrow> rest_spec user query meth r"
| image_inspect: "image_rest ''/json'' r \<Longrightarrow> rest_spec user query ''GET'' r"
| images_list: "rest_spec user query ''GET'' ''images/json''"
| images_create: "imagesCreateQueryAllowed query \<Longrightarrow> rest_spec user query ''POST'' ''images/create''"
| image_push: "image_rest ''/push'' r \<Longrightarrow> rest_spec user query ''POST'' r"
| networks_list: "r \<in> {''networks'', ''networks/json''} \<Longrightarrow> rest_spec user query ''GET'' r"
| network_inspect: "network_rest r \<Longrightarrow> rest_spec user query ''GET'' r"
| network_own: "own_rest user r \<Longrightarrow> rest_spec user query meth r"
| network_connect: "connect_rest r \<Longrightarrow> rest_spec user query ''POST'' r"
| network_delete: "network_rest r \<Longrightarrow> rest_spec user query ''DELETE'' r"
| network_create: "rest_spec user query ''POST'' ''networks/create''"
| build: "rest_spec user query ''POST'' ''build''"
| images_load: "rest_spec user query ''POST'' ''images/load''"
| volumes: "volumes_rest r \<Longrightarrow> rest_spec user query meth r"
| events: "rest_spec user query ''GET'' ''events''"

inductive endpoint_spec :: "gostring \<Rightarrow> gostring \<Rightarrow> gostring \<Rightarrow> gostring \<Rightarrow> bool"
  for user :: gostring and query :: gostring where
  ping: "meth \<in> {''HEAD'', ''GET''} \<Longrightarrow> endpoint_spec user query meth ''/_ping''"
| info: "endpoint_spec user query ''GET'' ''/info''"
| auth0: "endpoint_spec user query ''POST'' ''/auth''"
| versioned: "is_version v \<Longrightarrow> rest_spec user query meth r \<Longrightarrow>
     endpoint_spec user query meth (''/v'' @ v @ ''/'' @ r)"

text \<open>
  What an earlier expression of the chain takes for itself, so that a later row of the tables that
  would allow the method is never reached: the reserved names \<open>json\<close> and \<open>create\<close> in place of a
  container or network name, and \<open>connect\<close> under the user's own network.
\<close>

definition shadowed :: "gostring \<Rightarrow> gostring \<Rightarrow> gostring \<Rightarrow> bool" where
  "shadowed user meth r \<longleftrightarrow>
     r \<in> {''containers/json'', ''containers/create'', ''networks/json''} \<and> meth = ''DELETE''
   \<or> r = ''networks/create'' \<and> meth \<in> {''GET'', ''DELETE''}
   \<or> connect_rest r \<and> own_rest user r \<and> meth \<noteq> ''POST''"

text \<open>Where the code departs from the tables with no such excuse: they list the container and exec
  actions for any method, the code accepts \<open>GET\<close> and \<open>POST\<close> only.\<close>

definition narrowed :: "gostring \<Rightarrow> gostring \<Rightarrow> bool" where
  "narrowed meth r \<longleftrightarrow> (action_rest r \<or> exec_rest r) \<and> meth \<notin> {''GET'', ''POST''}"

text \<open>Each expression says the same of a path as the explicit rest.\<close>

definition rest_in :: "gostring \<Rightarrow> (gostring \<Rightarrow> bool) \<Rightarrow> bool" where
  "rest_in p R \<longleftrightarrow> (case version_split p of Some (v, r) \<Rightarrow> R r | None \<Rightarrow> False)"

lemma lang_re_tail: "t \<in> lang re_tail \<longleftrightarrow> is_subpath t"
  by (auto simp: is_subpath_def any_char_def)

lemma lang_re_name: "n \<in> lang re_name \<longleftrightarrow> is_name n"
  by (auto simp: is_name_def)

lemma lang_re_image: "n \<in> lang re_image \<longleftrightarrow> is_image n"
  by (auto simp: is_image_def)

lemma re_versioned:
  assumes "\<And>w. w \<in> lang R \<longleftrightarrow> (\<exists>r. w = CHR ''/'' # r \<and> W r)"
  shows "re_match (RSeq re_version R) p = rest_in p W"
proof -
  have "re_match (RSeq re_version R) p \<longleftrightarrow>
      (\<exists>v r. is_version v \<and> W r \<and> p = ''/v'' @ v @ CHR ''/'' # r)"
    unfolding re_match_lang lang_seq_iff Bex_def lang_lit lang_plus_set assms is_version_def
    by auto
  also have "\<dots> \<longleftrightarrow> (\<exists>v r. version_split p = Some (v, r) \<and> W r)"
    by (auto simp: version_split_Some is_version_def)
  finally show ?thesis
    by (auto simp: rest_in_def split: option.splits)
qed

lemma route_system: "re_match reSystemVersioned p =
    rest_in p (\<lambda>r. r \<in> {''_ping'', ''version'', ''info'', ''system/df'', ''system/events''})"
  unfolding reSystemVersioned_def
  by (rule re_versioned) (simp only: lang.simps lang_alts_lit lang_lit, auto)

lemma route_containers_list: "re_match reContainersList p = rest_in p (\<lambda>r. r = ''containers/json'')"
  unfolding reContainersList_def by (rule re_versioned) auto

lemma route_containers_create: "re_match reContainersCreate p = rest_in p (\<lambda>r. r = ''containers/create'')"
  unfolding reContainersCreate_def by (rule re_versioned) auto

lemma route_container_action: "re_match reContainerAction p = rest_in p action_rest"
  unfolding reContainerAction_def
  by (rule re_versioned)
    (unfold lang_seq_iff Bex_def lang_lit lang_alts_lit lang_re_name lang_re_tail action_rest_def, auto, blast)

lemma route_container_delete: "re_match reContainerDelete p = rest_in p delete_rest"
  unfolding reContainerDelete_def
  by (rule re_versioned)
    (unfold lang_seq_iff Bex_def lang_lit lang_alts_lit lang_opt lang_re_name lang_re_image lang_re_tail delete_rest_def, auto)

lemma route_exec_action: "re_match reExecAction p = rest_in p exec_rest"
  unfolding reExecAction_def
  by (rule re_versioned)
    (unfold lang_seq_iff Bex_def lang_lit lang_alts_lit lang_opt lang_re_name lang_re_image lang_re_tail exec_rest_def, auto)

lemma route_images_list: "re_match reImagesList p = rest_in p (\<lambda>r. r = ''images/json'')"
  unfolding reImagesList_def by (rule re_versioned) auto

lemma route_images_create: "re_match reImagesCreate p = rest_in p (\<lambda>r. r = ''images/create'')"
  unfolding reImagesCreate_def by (rule re_versioned) auto

lemma route_image_inspect: "re_match reImageInspect p = rest_in p (image_rest ''/json'')"
  unfolding reImageInspect_def
  by (rule re_versioned)
    (unfold lang_seq_iff Bex_def lang_lit lang_alts_lit lang_opt lang_re_name lang_re_image lang_re_tail image_rest_def, auto)

lemma route_image_push: "re_match reImagePush p = rest_in p (image_rest ''/push'')"
  unfolding reImagePush_def
  by (rule re_versioned)
    (unfold lang_seq_iff Bex_def lang_lit lang_alts_lit lang_opt lang_re_name lang_re_image lang_re_tail image_rest_def, auto)

lemma route_networks_list: "re_match reNetworksList p = rest_in p (\<lambda>r. r \<in> {''networks'', ''networks/json''})"
  unfolding reNetworksList_def
  by (rule re_versioned)
    (unfold lang_seq_iff Bex_def lang_lit lang_alts_lit lang_opt lang_re_name lang_re_image lang_re_tail , auto)

lemma route_networks_create: "re_match reNetworksCreate p = rest_in p (\<lambda>r. r = ''networks/create'')"
  unfolding reNetworksCreate_def by (rule re_versioned) auto

lemma route_network_inspect: "re_match reNetworkInspect p = rest_in p network_rest"
  unfolding reNetworkInspect_def
  by (rule re_versioned)
    (unfold lang_seq_iff Bex_def lang_lit lang_alts_lit lang_opt lang_re_name lang_re_image lang_re_tail network_rest_def, auto)

lemma route_network_connect: "re_match reNetworkConnect p = rest_in p connect_rest"
  unfolding reNetworkConnect_def
  by (rule re_versioned)
    (unfold lang_seq_iff Bex_def lang_lit lang_alts_lit lang_opt lang_re_name lang_re_image lang_re_tail connect_rest_def, auto)

lemma route_build: "re_match reBuild p = rest_in p (\<lambda>r. r = ''build'')"
  unfolding reBuild_def by (rule re_versioned) auto

lemma route_images_load: "re_match reImagesLoad p = rest_in p (\<lambda>r. r = ''images/load'')"
  unfolding reImagesLoad_def by (rule re_versioned) auto

lemma route_volumes: "re_match reVolumes p = rest_in p volumes_rest"
  unfolding reVolumes_def
  by (rule re_versioned)
    (unfold lang_seq_iff Bex_def lang_lit lang_alts_lit lang_re_tail volumes_rest_def, auto)

lemma route_events: "re_match reEvents p = rest_in p (\<lambda>r. r = ''events'')"
  unfolding reEvents_def by (rule re_versioned) auto

lemma route_own_network: "re_match (userIsoNetworkRegex user) p = rest_in p (own_rest user)"
  unfolding userIsoNetworkRegex_def
  by (rule re_versioned)
    (unfold lang_seq_iff Bex_def lang_lit lang_re_tail own_rest_def, auto)

lemma route_auth: "re_match reAuth p \<longleftrightarrow> p = ''/auth'' \<or> rest_in p (\<lambda>r. r = ''auth'')"
proof -
  have "re_match reAuth p \<longleftrightarrow> p = ''/auth'' \<or> re_match (RSeq re_version (lit ''/auth'')) p"
    unfolding reAuth_def re_match_lang lang_seq_iff [of _ "opt _"] lang_seq_iff [of _ re_version]
      lang_opt Bex_def lang_lit by auto
  also have "re_match (RSeq re_version (lit ''/auth'')) p = rest_in p (\<lambda>r. r = ''auth'')"
    by (rule re_versioned) auto
  finally show ?thesis .
qed

lemmas route_simps = route_auth route_system route_containers_list route_containers_create
  route_container_action route_container_delete route_exec_action route_images_list
  route_images_create route_image_inspect route_image_push route_networks_list
  route_networks_create route_network_inspect route_network_connect route_build
  route_images_load route_volumes route_events route_own_network

section \<open>The chain of first matches against the tables\<close>

text \<open>The part of a rest before its first slash tells the families apart.\<close>

definition resource :: "gostring \<Rightarrow> gostring" where
  "resource r = fst (cut_at CHR ''/'' r)"

lemma resource_append [simp]: "CHR ''/'' \<notin> set w \<Longrightarrow> resource (w @ CHR ''/'' # t) = w"
  by (simp add: resource_def cut_at_found)

lemma resource_literal:
  "resource (''containers/'' @ t) = ''containers''"
  "resource (''exec/'' @ t) = ''exec''"
  "resource (''images/'' @ t) = ''images''"
  "resource (''networks/'' @ t) = ''networks''"
  "resource (''networks/iso-'' @ t) = ''networks''"
  using resource_append [of "''containers''"] resource_append [of "''exec''"]
    resource_append [of "''images''"] resource_append [of "''networks''"]
    resource_append [of "''networks''" "''iso-'' @ t"]
  by simp_all

lemma resource_volumes: "is_subpath t \<Longrightarrow> resource (''volumes'' @ t) = ''volumes''"
  by (auto simp: is_subpath_def resource_def)

lemma rest_resource:
  "action_rest r \<Longrightarrow> resource r = ''containers''"
  "delete_rest r \<Longrightarrow> resource r = ''containers''"
  "exec_rest r \<Longrightarrow> resource r = ''exec''"
  "image_rest w r \<Longrightarrow> resource r = ''images''"
  "network_rest r \<Longrightarrow> resource r = ''networks''"
  "connect_rest r \<Longrightarrow> resource r = ''networks''"
  "own_rest user r \<Longrightarrow> resource r = ''networks''"
  "volumes_rest r \<Longrightarrow> resource r = ''volumes''"
  unfolding rest_defs by (auto simp only: resource_literal resource_volumes)

lemma is_name_no_slash: "is_name n \<Longrightarrow> CHR ''/'' \<notin> set n"
  using name_char_not_slash by (auto simp: is_name_def)

lemma rest_spec_iff:
  "rest_spec user q meth r \<longleftrightarrow>
     r \<in> {''_ping'', ''version'', ''info'', ''system/df'', ''system/events'', ''events'', ''containers/json'',
        ''images/json'', ''networks'', ''networks/json''} \<and> meth = ''GET''
   \<or> r \<in> {''auth'', ''containers/create'', ''networks/create'', ''build'', ''images/load''} \<and> meth = ''POST''
   \<or> action_rest r \<or> delete_rest r \<and> meth = ''DELETE'' \<or> exec_rest r
   \<or> image_rest ''/json'' r \<and> meth = ''GET'' \<or> image_rest ''/push'' r \<and> meth = ''POST''
   \<or> r = ''images/create'' \<and> meth = ''POST'' \<and> imagesCreateQueryAllowed q
   \<or> network_rest r \<and> meth \<in> {''GET'', ''DELETE''} \<or> own_rest user r
   \<or> connect_rest r \<and> meth = ''POST'' \<or> volumes_rest r" (is "_ \<longleftrightarrow> ?rhs")
proof
  show "rest_spec user q meth r \<Longrightarrow> ?rhs"
    by (erule rest_spec.cases) auto
  show "?rhs \<Longrightarrow> rest_spec user q meth r"
    by (elim disjE conjE insertE emptyE) (simp_all only: rest_spec.intros insertI1 insert_iff simp_thms)
qed

lemma action_rest_not_name: "action_rest (''containers/'' @ n) \<Longrightarrow> \<not> is_name n"
  by (auto simp: action_rest_def dest: is_name_no_slash)

lemma connect_rest_not_name: "connect_rest (''networks/'' @ n) \<Longrightarrow> \<not> is_name n"
  by (auto simp: connect_rest_def dest: is_name_no_slash)

lemma action_not_delete: "action_rest r \<Longrightarrow> \<not> delete_rest r"
  using action_rest_not_name by (auto simp: delete_rest_def)

lemma connect_not_network: "connect_rest r \<Longrightarrow> \<not> network_rest r"
  using connect_rest_not_name by (auto simp: network_rest_def)

lemma reserved_rests:
  "\<not> action_rest ''containers/json''" "\<not> action_rest ''containers/create''"
  "\<not> connect_rest ''networks/json''" "\<not> connect_rest ''networks/create''"
  "\<not> own_rest user ''networks/json''" "\<not> own_rest user ''networks/create''"
  "\<not> own_rest user ''networks''" "\<not> connect_rest ''networks''" "\<not> network_rest ''networks''"
  "delete_rest ''containers/json''" "delete_rest ''containers/create''"
  "network_rest ''networks/json''" "network_rest ''networks/create''"
proof -
  have names: "is_name ''json''" "is_name ''create''" by code_simp+
  show "\<not> action_rest ''containers/json''" "\<not> action_rest ''containers/create''"
    using action_rest_not_name [of "''json''"] action_rest_not_name [of "''create''"] names by auto
  show "\<not> connect_rest ''networks/json''" "\<not> connect_rest ''networks/create''"
    using connect_rest_not_name [of "''json''"] connect_rest_not_name [of "''create''"] names by auto
  show "delete_rest ''containers/json''" "delete_rest ''containers/create''"
      "network_rest ''networks/json''" "network_rest ''networks/create''"
    using names by (auto simp: delete_rest_def network_rest_def)
  show "\<not> own_rest user ''networks/json''" "\<not> own_rest user ''networks/create''"
    "\<not> own_rest user ''networks''" "\<not> connect_rest ''networks''" "\<not> network_rest ''networks''"
    by (auto simp: own_rest_def connect_rest_def network_rest_def)
qed

lemma image_rest_verbs:
  "image_rest ''/json'' r \<Longrightarrow> \<not> image_rest ''/push'' r"
  "\<not> image_rest ''/json'' ''images/create''" "\<not> image_rest ''/push'' ''images/create''"
  "\<not> image_rest ''/json'' ''images/load''" "\<not> image_rest ''/push'' ''images/load''"
  "\<not> image_rest ''/json'' ''images/json''" "\<not> image_rest ''/push'' ''images/json''"
  by (auto simp: image_rest_def append_eq_Cons_conv Cons_eq_append_conv is_image_def)

text \<open>The chain, read on the rest of a versioned path.\<close>

lemma path_allowed_chain:
  assumes "version_split p = Some (v, r)"
  shows "path_allowed meth p q user =
     (if r = ''auth'' then meth = ''POST''
      else if r \<in> {''_ping'', ''version'', ''info'', ''system/df'', ''system/events''} then meth = ''GET''
      else if r = ''containers/json'' then meth = ''GET''
      else if r = ''containers/create'' then meth = ''POST''
      else if action_rest r then meth = ''GET'' \<or> meth = ''POST''
      else if delete_rest r then meth = ''DELETE''
      else if exec_rest r then meth = ''GET'' \<or> meth = ''POST''
      else if r = ''images/json'' then meth = ''GET''
      else if image_rest ''/json'' r then meth = ''GET''
      else if r = ''images/create'' then meth = ''POST'' \<and> imagesCreateQueryAllowed q
      else if image_rest ''/push'' r then meth = ''POST''
      else if r = ''networks/create'' then meth = ''POST''
      else if r \<in> {''networks'', ''networks/json''} then meth = ''GET''
      else if connect_rest r then meth = ''POST''
      else if own_rest user r then True
      else if network_rest r then meth = ''GET'' \<or> meth = ''DELETE''
      else if r = ''build'' then meth = ''POST''
      else if r = ''images/load'' then meth = ''POST''
      else if volumes_rest r then True
      else if r = ''events'' then meth = ''GET''
      else False)"
proof -
  have "p \<noteq> ''/_ping'' \<and> p \<noteq> ''/info'' \<and> p \<noteq> ''/auth''"
    using assms by (auto simp: version_split_def)
  then show ?thesis
    by (simp add: path_allowed_def route_simps rest_in_def assms)
qed

lemma resource_cases:
  obtains "resource r = ''containers''" | "resource r = ''exec''" | "resource r = ''images''"
    | "resource r = ''networks''" | "resource r = ''volumes''"
    | "resource r \<notin> {''containers'', ''exec'', ''images'', ''networks'', ''volumes''}"
  by blast

text \<open>The families a rest of another resource is not in.\<close>

lemma not_rest:
  "resource r \<noteq> ''containers'' \<Longrightarrow> \<not> action_rest r \<and> \<not> delete_rest r"
  "resource r \<noteq> ''exec'' \<Longrightarrow> \<not> exec_rest r"
  "resource r \<noteq> ''images'' \<Longrightarrow> \<not> image_rest w r"
  "resource r \<noteq> ''networks'' \<Longrightarrow> \<not> network_rest r \<and> \<not> connect_rest r \<and> \<not> own_rest user r"
  "resource r \<noteq> ''volumes'' \<Longrightarrow> \<not> volumes_rest r"
  using rest_resource by blast+

definition fixed_rests :: "gostring list" where
  "fixed_rests = [''auth'', ''_ping'', ''version'', ''info'', ''system/df'', ''system/events'',
     ''containers/json'', ''containers/create'', ''images/json'', ''images/create'',
     ''networks/create'', ''networks'', ''networks/json'', ''build'', ''images/load'', ''events'']"

lemma fixed_rests_resource:
  "resource ''auth'' = ''auth''" "resource ''_ping'' = ''_ping''" "resource ''version'' = ''version''"
  "resource ''info'' = ''info''" "resource ''system/df'' = ''system''" "resource ''system/events'' = ''system''"
  "resource ''containers/json'' = ''containers''" "resource ''containers/create'' = ''containers''"
  "resource ''images/json'' = ''images''" "resource ''images/create'' = ''images''" "resource ''images/load'' = ''images''"
  "resource ''networks/create'' = ''networks''" "resource ''networks/json'' = ''networks''" "resource ''networks'' = ''networks''"
  "resource ''build'' = ''build''" "resource ''events'' = ''events''"
  by (simp_all add: resource_def)

lemma path_allowed_versioned:
  assumes "version_split p = Some (v, r)"
  shows "path_allowed meth p q user \<longleftrightarrow> rest_spec user q meth r \<and> \<not> shadowed user meth r \<and> \<not> narrowed meth r"
proof (cases "r \<in> set fixed_rests")
  case True
  then show ?thesis
    unfolding path_allowed_chain [OF assms] rest_spec_iff shadowed_def narrowed_def fixed_rests_def
      set_simps insert_iff empty_iff simp_thms
    by (elim disjE; simp add: not_rest fixed_rests_resource reserved_rests image_rest_verbs; auto)
next
  case False
  then have F: "r \<noteq> ''auth''" "r \<noteq> ''_ping''" "r \<noteq> ''version''" "r \<noteq> ''info''" "r \<noteq> ''system/df''" "r \<noteq> ''system/events''"
     "r \<noteq> ''containers/json''" "r \<noteq> ''containers/create''" "r \<noteq> ''images/json''" "r \<noteq> ''images/create''"
     "r \<noteq> ''networks/create''" "r \<noteq> ''networks''" "r \<noteq> ''networks/json''" "r \<noteq> ''build''" "r \<noteq> ''images/load''" "r \<noteq> ''events''"
    by (auto simp: fixed_rests_def)
  have "path_allowed meth p q user =
      (if action_rest r then meth = ''GET'' \<or> meth = ''POST''
       else if delete_rest r then meth = ''DELETE''
       else if exec_rest r then meth = ''GET'' \<or> meth = ''POST''
       else if image_rest ''/json'' r then meth = ''GET''
       else if image_rest ''/push'' r then meth = ''POST''
       else if connect_rest r then meth = ''POST''
       else if own_rest user r then True
       else if network_rest r then meth = ''GET'' \<or> meth = ''DELETE''
       else if volumes_rest r then True else False)"
    unfolding path_allowed_chain [OF assms] by (simp only: F if_False insert_iff empty_iff simp_thms)
  moreover have "rest_spec user q meth r \<and> \<not> shadowed user meth r \<and> \<not> narrowed meth r \<longleftrightarrow>
      (action_rest r \<or> delete_rest r \<and> meth = ''DELETE'' \<or> exec_rest r
       \<or> image_rest ''/json'' r \<and> meth = ''GET'' \<or> image_rest ''/push'' r \<and> meth = ''POST''
       \<or> network_rest r \<and> meth \<in> {''GET'', ''DELETE''} \<or> own_rest user r
       \<or> connect_rest r \<and> meth = ''POST'' \<or> volumes_rest r)
      \<and> \<not> (connect_rest r \<and> own_rest user r \<and> meth \<noteq> ''POST'')
      \<and> \<not> ((action_rest r \<or> exec_rest r) \<and> meth \<notin> {''GET'', ''POST''})"
    unfolding rest_spec_iff shadowed_def narrowed_def by (simp only: F insert_iff empty_iff simp_thms de_Morgan_disj)
  ultimately show ?thesis
    using not_rest [of r] action_not_delete [of r] connect_not_network [of r] image_rest_verbs(1) [of r]
    by (cases r rule: resource_cases) (auto split: if_splits)
qed
section \<open>Properties\<close>

lemma version_split_versioned [simp]:
  "is_version v \<Longrightarrow> version_split (''/v'' @ v @ ''/'' @ r) = Some (v, r)"
  by (simp only: version_split_Some is_version_def) simp

lemma path_allowed_iff:
  "path_allowed meth p q user \<longleftrightarrow>
     endpoint_spec user q meth p \<and> \<not> rest_in p (shadowed user meth) \<and> \<not> rest_in p (narrowed meth)"
proof (cases "version_split p")
  case None
  then have "endpoint_spec user q meth p \<longleftrightarrow>
      p = ''/_ping'' \<and> meth \<in> {''HEAD'', ''GET''} \<or> p = ''/info'' \<and> meth = ''GET''
      \<or> p = ''/auth'' \<and> meth = ''POST''"
    using version_split_versioned by (auto elim!: endpoint_spec.cases intro: endpoint_spec.intros)
  then show ?thesis
    using None by (auto simp: path_allowed_def route_simps rest_in_def)
next
  case (Some vr)
  obtain v r where vr: "vr = (v, r)" by (cases vr)
  have "endpoint_spec user q meth p \<longleftrightarrow> rest_spec user q meth r"
  proof
    assume "endpoint_spec user q meth p"
    then show "rest_spec user q meth r"
    proof cases
      case (versioned v' r')
      then have "version_split p = Some (v', r')" by (simp only: version_split_versioned)
      then show ?thesis using Some vr versioned by simp
    qed (use Some in \<open>simp_all add: version_split_def\<close>)
  next
    assume "rest_spec user q meth r"
    moreover have "p = ''/v'' @ v @ ''/'' @ r" "is_version v"
      using Some vr by (auto simp: version_split_Some is_version_def)
    ultimately show "endpoint_spec user q meth p" by (simp only: endpoint_spec.versioned)
  qed
  then show ?thesis
    using path_allowed_versioned [of p v r] Some vr by (simp add: rest_in_def)
qed

text \<open>C5.  The allowlist is default-deny, and it is the specification's endpoint tables with two
  exceptions: a request is let through if and only if a row of the tables allows its method and
  path, unless an earlier expression of the chain takes the path for itself (\<open>shadowed\<close>), and unless
  it is a container or exec action with a method other than \<open>GET\<close> and \<open>POST\<close> (\<open>narrowed\<close>), which the
  tables list and the code denies.\<close>

theorem is_endpoint_allowed_iff:
  "is_endpoint_allowed meth uri user \<longleftrightarrow>
     endpoint_spec user (snd (path_and_query uri)) meth (fst (path_and_query uri))
     \<and> \<not> rest_in (fst (path_and_query uri)) (shadowed user meth)
     \<and> \<not> rest_in (fst (path_and_query uri)) (narrowed meth)"
  by (simp add: is_endpoint_allowed_def path_allowed_iff split: prod.splits)

text \<open>The second exception is met: the tables allow a \<open>HEAD\<close> request for a container's description, and
  the code denies it.\<close>

lemma head_inspect_denied:
  "endpoint_spec user q ''HEAD'' ''/v1.41/containers/web/json''
   \<and> \<not> is_endpoint_allowed ''HEAD'' ''/v1.41/containers/web/json'' user"
proof
  have v: "is_version ''1.41''" and n: "is_name ''web''" and a: "''json'' \<in> set container_actions" by code_simp+
  have "action_rest ''containers/web/json''"
    unfolding action_rest_def
    by (intro exI [of _ "''web''"] exI [of _ "''json''"] exI [of _ "[]"]) (use n a in \<open>simp add: is_subpath_def\<close>)
  then have r: "action_rest ''containers/web/json''" .
  from endpoint_spec.versioned [OF v rest_spec.container_action [OF this]]
  show "endpoint_spec user q ''HEAD'' ''/v1.41/containers/web/json''" by simp
  have "fst (path_and_query ''/v1.41/containers/web/json'') = ''/v1.41/containers/web/json''" by code_simp
  moreover have "version_split ''/v1.41/containers/web/json'' = Some (''1.41'', ''containers/web/json'')"
    using version_split_versioned [OF v, of "''containers/web/json''"] by simp
  ultimately show "\<not> is_endpoint_allowed ''HEAD'' ''/v1.41/containers/web/json'' user"
    using r by (simp add: is_endpoint_allowed_def path_allowed_iff rest_in_def narrowed_def case_prod_beta)
qed

lemma extend_values_None [simp]: "extend_values None vs = (if vs = [] then None else Some vs)"
  by (cases vs) auto

lemma parse_query_keys:
  assumes "parse_query q = Some m"
  shows "fst ` set m = fst ` set (map (the \<circ> decode_piece) (query_pieces q))"
proof -
  have "k \<in> fst ` set m \<longleftrightarrow> values_of (map (the \<circ> decode_piece) (query_pieces q)) k \<noteq> []" for k
    using parse_query_map_of [OF assms, of k] map_of_eq_None_iff [of m k] by auto
  moreover have "values_of kvs k \<noteq> [] \<longleftrightarrow> k \<in> fst ` set kvs" for kvs k
    by (force simp: values_of_def filter_empty_conv)
  ultimately show ?thesis by blast
qed

text \<open>C39.  An image pull is allowed if and only if every piece of the query is well formed and
  decodes to one of the keys \<open>fromImage\<close>, \<open>tag\<close>, \<open>platform\<close>, and the first \<open>fromImage\<close>
  is not empty; so no encoding of \<open>fromSrc\<close> gets through.\<close>

theorem imagesCreateQueryAllowed_iff:
  "imagesCreateQueryAllowed q \<longleftrightarrow>
     list_all (\<lambda>p. case decode_piece p of None \<Rightarrow> False
        | Some (k, v) \<Rightarrow> k \<in> {''fromImage'', ''tag'', ''platform''}) (query_pieces q)
     \<and> (case values_of (map (the \<circ> decode_piece) (query_pieces q)) ''fromImage'' of
          [] \<Rightarrow> False | v # vs \<Rightarrow> v \<noteq> [])"
    (is "_ \<longleftrightarrow> ?keys \<and> ?image")
proof (cases "parse_query q")
  case None
  then obtain p where "p \<in> set (query_pieces q)" "decode_piece p = None"
    using parse_query_None [of q] by auto
  then have "\<not> ?keys" by (auto simp: list_all_iff intro!: bexI [of _ p])
  then show ?thesis using None by (simp only: imagesCreateQueryAllowed_def) simp
next
  case (Some m)
  let ?K = "{''fromImage'', ''tag'', ''platform''}"
  have ok: "\<forall>p \<in> set (query_pieces q). decode_piece p \<noteq> None"
    using Some parse_query_None [of q] by auto
  have keys: "fst ` set m \<subseteq> K \<longleftrightarrow> list_all (\<lambda>p. case decode_piece p of None \<Rightarrow> False
      | Some (k, v) \<Rightarrow> k \<in> K) (query_pieces q)" for K
    unfolding parse_query_keys [OF Some] list_all_iff using ok by (fastforce split: option.splits)
  have image: "values_get m ''fromImage'' \<noteq> [] \<longleftrightarrow> ?image"
    using parse_query_map_of [OF Some, of "''fromImage''"]
    by (simp add: values_get_def split: list.splits)
  have "list_all (\<lambda>(k, _). k \<in> K) m \<longleftrightarrow> fst ` set m \<subseteq> K" for K :: "gostring set"
    by (auto simp: list_all_iff)
  then have all: "list_all (\<lambda>(k, _). k \<in> set [''fromImage'', ''tag'', ''platform'']) m \<longleftrightarrow> ?keys"
    by (simp only: keys set_simps)
  have "fst ` set m \<subseteq> ?K \<Longrightarrow> map_of m ''fromSrc'' = None"
    by (auto simp: map_of_eq_None_iff)
  then show ?thesis
    unfolding imagesCreateQueryAllowed_def Some option.case all image keys [symmetric]
    by (cases "fst ` set m \<subseteq> ?K") (simp_all only: simp_thms if_True if_False split: if_splits)
qed

end
