(* ===== verification/Ownership.thy ===== *)
theory Ownership
  imports Bodies Allowlist
begin

text \<open>
  \<open>internal/proxy/ownership.go\<close>: the inspect subrequests, the ownership decision for
  containers and exec instances, the filter of the container list, the path segments that
  name a target, and the JSON error body.

  The daemon is a parameter: \<open>answer n bytes\<close> is what happens when the \<open>n\<close>-th subrequest of a
  request dials and writes \<open>bytes\<close>.  It may change from one subrequest to the next.
\<close>

section \<open>Subrequests\<close>

text \<open>What a subrequest meets: the dial, the write or \<open>http.ReadResponse\<close> fails, or there is a
  response, whose body \<open>io.ReadAll\<close> reads completely or not.\<close>

datatype sub_outcome = DialFailed | WriteFailed | NoResponse | Response nat gostring bool

type_synonym answers = "nat \<Rightarrow> gostring \<Rightarrow> sub_outcome"

definition subrequest_bytes :: "gostring \<Rightarrow> gostring" where
  "subrequest_bytes httpPath =
     ''GET '' @ httpPath @ '' HTTP/1.1'' @ crlf @ ''Host: docker'' @ crlf
     @ ''Connection: close'' @ crlf @ crlf"

definition subrequest :: "answers \<Rightarrow> nat \<Rightarrow> gostring \<Rightarrow> (nat \<times> gostring) option" where
  "subrequest answer n httpPath =
     (case answer n (subrequest_bytes httpPath) of
        DialFailed \<Rightarrow> None
      | WriteFailed \<Rightarrow> None
      | NoResponse \<Rightarrow> None
      | Response status body whole \<Rightarrow> if whole then Some (status, body) else None)"

definition container_inspect_path :: "gostring \<Rightarrow> gostring \<Rightarrow> gostring" where
  "container_inspect_path ver cid = ''/'' @ ver @ ''/containers/'' @ cid @ ''/json''"

definition exec_inspect_path :: "gostring \<Rightarrow> gostring \<Rightarrow> gostring" where
  "exec_inspect_path ver eid = ''/'' @ ver @ ''/exec/'' @ eid @ ''/json''"

section \<open>The owner label\<close>

definition label_in :: "fields \<Rightarrow> gostring option" where
  "label_in data =
     (case as_obj (field_or_nil data ''Labels'') of
        None \<Rightarrow> None
      | Some labels \<Rightarrow> as_str (field_or_nil labels owner_label))"

definition extractOwnerLabel :: "fields \<Rightarrow> gostring" where
  "extractOwnerLabel data =
     (case (case as_obj (field_or_nil data ''Config'') of
              None \<Rightarrow> None
            | Some conf \<Rightarrow> label_in conf) of
        Some v \<Rightarrow> v
      | None \<Rightarrow> (case label_in data of Some v \<Rightarrow> v | None \<Rightarrow> []))"

section \<open>The checks\<close>

text \<open>A check is the list of subrequests it wrote and its error, if any.\<close>

type_synonym check_result = "gostring list \<times> go_error option"

definition CheckContainerOwned ::
  "answers \<Rightarrow> nat \<Rightarrow> gostring \<Rightarrow> gostring \<Rightarrow> gostring \<Rightarrow> check_result" where
  "CheckContainerOwned answer n user apiVersion containerID =
     (let path = container_inspect_path apiVersion containerID;
          failed = Some (CreateError 403 ''isolator: container inspect failed'')
      in ([subrequest_bytes path],
          case subrequest answer n path of
            None \<Rightarrow> failed
          | Some (status, body) \<Rightarrow>
              if status = 200 then
                (case unmarshal_map body of
                   None \<Rightarrow> failed
                 | Some data \<Rightarrow>
                     if extractOwnerLabel (entries data) \<noteq> user
                     then Some (CreateError 403 (''isolator: container '' @ quoted containerID
                            @ '' is not owned by '' @ user))
                     else None)
              else if status = 404
              then Some (CreateError 404 (''No such container: '' @ containerID))
              else failed))"

definition CheckExecOwned ::
  "answers \<Rightarrow> gostring \<Rightarrow> gostring \<Rightarrow> gostring \<Rightarrow> check_result" where
  "CheckExecOwned answer user apiVersion execID =
     (let path = exec_inspect_path apiVersion execID;
          req = subrequest_bytes path;
          failed = Some (CreateError 403 ''isolator: exec inspect failed'')
      in case subrequest answer 0 path of
           None \<Rightarrow> ([req], failed)
         | Some (status, body) \<Rightarrow>
             if status = 200 then
               (case unmarshal_map body of
                  None \<Rightarrow> ([req], failed)
                | Some data \<Rightarrow>
                    let cid = str_or_empty (field_or_nil (entries data) ''ContainerID'')
                    in if cid = []
                       then ([req], Some (CreateError 403 ''isolator: exec inspect missing ContainerID''))
                       else case CheckContainerOwned answer 1 user apiVersion cid of
                              (reqs, e) \<Rightarrow> (req # reqs, e))
             else if status = 404
             then ([req], Some (CreateError 404 (''No such exec instance: '' @ execID)))
             else ([req], failed))"

section \<open>The container list\<close>

definition owned_item :: "gostring \<Rightarrow> fields option \<Rightarrow> bool" where
  "owned_item user item \<longleftrightarrow> label_in (entries item) = Some user"

definition FilterContainerList :: "gostring \<Rightarrow> gostring \<Rightarrow> gostring" where
  "FilterContainerList body user =
     (case unmarshal_maps body of
        None \<Rightarrow> body
      | Some arr \<Rightarrow> marshal (JArr (map (\<lambda>item. JObj (entries item)) (filter (owned_item user) arr))))"

section \<open>Targets in paths\<close>

definition PathSegments :: "gostring \<Rightarrow> gostring list" where
  "PathSegments p = filter (\<lambda>s. s \<noteq> []) (split_on CHR ''/'' p)"

definition ExtractContainerTarget :: "gostring \<Rightarrow> (gostring \<times> gostring) option" where
  "ExtractContainerTarget path =
     (case PathSegments path of
        ver # kind # cid # _ \<Rightarrow>
          if kind \<noteq> ''containers'' then None
          else if cid = ''json'' \<or> cid = ''create'' then None
          else Some (ver, cid)
      | _ \<Rightarrow> None)"

definition ExtractExecTarget :: "gostring \<Rightarrow> (gostring \<times> gostring) option" where
  "ExtractExecTarget path =
     (case PathSegments path of
        ver # kind # eid # _ \<Rightarrow> if kind \<noteq> ''exec'' then None else Some (ver, eid)
      | _ \<Rightarrow> None)"

section \<open>Error responses\<close>

definition makeJSONErrorBody :: "gostring \<Rightarrow> gostring" where
  "makeJSONErrorBody message = marshal (JObj [(''message'', JStr message)])"

record http_response =
  resp_status :: nat
  resp_headers :: "(gostring \<times> gostring) list"
  resp_body :: gostring

definition writeJSONError :: "nat \<Rightarrow> gostring \<Rightarrow> http_response" where
  "writeJSONError status message =
     (let body = makeJSONErrorBody message
      in \<lparr> resp_status = status,
           resp_headers = [(''Content-Type'', ''application/json''),
             (''Content-Length'', itoa (int (length body))), (''Connection'', ''close'')],
           resp_body = body \<rparr>)"

section \<open>What the checks decide\<close>

text \<open>The daemon's word: the answer to the \<open>n\<close>-th subrequest is a successful inspection that
  names the owner.\<close>

definition says_owner :: "answers \<Rightarrow> nat \<Rightarrow> gostring \<Rightarrow> gostring \<Rightarrow> gostring \<Rightarrow> bool" where
  "says_owner answer n ver cid user \<longleftrightarrow>
     (\<exists>body data. subrequest answer n (container_inspect_path ver cid) = Some (200, body)
        \<and> unmarshal_map body = Some data \<and> extractOwnerLabel (entries data) = user)"

definition says_container :: "answers \<Rightarrow> gostring \<Rightarrow> gostring \<Rightarrow> gostring \<Rightarrow> bool" where
  "says_container answer ver eid cid \<longleftrightarrow>
     (\<exists>body data. subrequest answer 0 (exec_inspect_path ver eid) = Some (200, body)
        \<and> unmarshal_map body = Some data
        \<and> field_or_nil (entries data) ''ContainerID'' = JStr cid \<and> cid \<noteq> [])"

lemma container_owned_None:
  "snd (CheckContainerOwned answer n user ver cid) = None \<longleftrightarrow> says_owner answer n ver cid user"
  by (auto simp: CheckContainerOwned_def says_owner_def Let_def split: option.splits if_splits)

lemma container_owned_subrequests:
  "fst (CheckContainerOwned answer n user ver cid) = [subrequest_bytes (container_inspect_path ver cid)]"
  by (simp add: CheckContainerOwned_def Let_def)

lemma str_or_empty_iff: "str_or_empty v = s \<and> s \<noteq> [] \<longleftrightarrow> v = JStr s \<and> s \<noteq> []"
  by (cases v) (auto simp: str_or_empty_def)

lemma exec_owned_None:
  "snd (CheckExecOwned answer user ver eid) = None \<longleftrightarrow>
     (\<exists>cid. says_container answer ver eid cid \<and> says_owner answer 1 ver cid user)"
proof (cases "subrequest answer 0 (exec_inspect_path ver eid)")
  case None
  then show ?thesis by (simp add: CheckExecOwned_def says_container_def Let_def)
next
  case (Some r)
  obtain status body where r: "r = (status, body)" by fastforce
  show ?thesis
  proof (cases "status = 200 \<and> unmarshal_map body \<noteq> None")
    case False
    then show ?thesis
      using Some r by (auto simp: CheckExecOwned_def says_container_def Let_def)
  next
    case True
    then obtain data where d: "unmarshal_map body = Some data" by blast
    define cid where "cid = str_or_empty (field_or_nil (entries data) ''ContainerID'')"
    have c: "says_container answer ver eid c \<longleftrightarrow> c = cid \<and> cid \<noteq> []" for c
      using Some r d True str_or_empty_iff [of "field_or_nil (entries data) ''ContainerID''" c]
      by (auto simp: says_container_def cid_def)
    have "snd (CheckExecOwned answer user ver eid) = None
        \<longleftrightarrow> cid \<noteq> [] \<and> snd (CheckContainerOwned answer 1 user ver cid) = None"
      using Some r d True by (simp add: CheckExecOwned_def Let_def cid_def split: prod.split)
    then show ?thesis by (auto simp: c container_owned_None)
  qed
qed

section \<open>Targets of matched paths\<close>

lemma is_version_no_slash: "is_version v \<Longrightarrow> CHR ''/'' \<notin> set v"
  using ver_char_not_slash by (auto simp: is_version_def)

definition ends_segment :: "gostring \<Rightarrow> bool" where
  "ends_segment t \<longleftrightarrow> t = [] \<or> prefix ''/'' t"

lemma split_on_segment:
  "CHR ''/'' \<notin> set w \<Longrightarrow> ends_segment t \<Longrightarrow>
     \<exists>ws. split_on CHR ''/'' (w @ t) = w # ws"
  by (auto simp: ends_segment_def prefix_def split_on_free split_on_free_sep)

lemma path_segments:
  assumes "is_version v" "CHR ''/'' \<notin> set kind" "kind \<noteq> []" "is_name n" "ends_segment t"
  obtains ws where "PathSegments (''/v'' @ v @ CHR ''/'' # kind @ CHR ''/'' # n @ t) = (''v'' @ v) # kind # n # ws"
proof -
  obtain ws where ws: "split_on CHR ''/'' (n @ t) = n # ws"
    using split_on_segment [OF is_name_no_slash [OF assms(4)] assms(5)] by blast
  have "split_on CHR ''/'' (v @ CHR ''/'' # kind @ CHR ''/'' # n @ t) = v # kind # n # ws"
    using assms(2) is_version_no_slash [OF assms(1)] ws by (simp add: split_on_free_sep)
  then have "split_on CHR ''/'' (''/v'' @ v @ CHR ''/'' # kind @ CHR ''/'' # n @ t)
      = [] # (''v'' @ v) # kind # n # ws"
    by simp
  moreover have "n \<noteq> []" using assms(4) by (simp add: is_name_def)
  ultimately show thesis using that assms(3) by (simp add: PathSegments_def)
qed

lemma container_target:
  assumes "is_version v" "is_name n" "ends_segment t"
  shows "ExtractContainerTarget (''/v'' @ v @ ''/containers/'' @ n @ t)
           = (if n = ''json'' \<or> n = ''create'' then None else Some (''v'' @ v, n))"
proof -
  obtain ws where "PathSegments (''/v'' @ v @ CHR ''/'' # ''containers'' @ CHR ''/'' # n @ t)
      = (''v'' @ v) # ''containers'' # n # ws"
    using path_segments [of v "''containers''" n t] assms by auto
  then show ?thesis by (simp add: ExtractContainerTarget_def)
qed

lemma exec_target:
  assumes "is_version v" "is_name n" "ends_segment t"
  shows "ExtractExecTarget (''/v'' @ v @ ''/exec/'' @ n @ t) = Some (''v'' @ v, n)"
proof -
  obtain ws where "PathSegments (''/v'' @ v @ CHR ''/'' # ''exec'' @ CHR ''/'' # n @ t)
      = (''v'' @ v) # ''exec'' # n # ws"
    using path_segments [of v "''exec''" n t] assms by auto
  then show ?thesis by (simp add: ExtractExecTarget_def)
qed

text \<open>A path that names a container, or an exec instance.\<close>

definition names_container :: "gostring \<Rightarrow> gostring \<Rightarrow> gostring \<Rightarrow> bool" where
  "names_container p ver n \<longleftrightarrow>
     (\<exists>v t. p = ''/v'' @ v @ ''/containers/'' @ n @ t \<and> ver = ''v'' @ v
        \<and> is_version v \<and> is_name n \<and> ends_segment t)"

definition names_exec :: "gostring \<Rightarrow> gostring \<Rightarrow> gostring \<Rightarrow> bool" where
  "names_exec p ver n \<longleftrightarrow>
     (\<exists>v t. p = ''/v'' @ v @ ''/exec/'' @ n @ t \<and> ver = ''v'' @ v
        \<and> is_version v \<and> is_name n \<and> ends_segment t)"

lemma rest_in_SomeE:
  assumes "rest_in p R"
  obtains v r where "p = ''/v'' @ v @ CHR ''/'' # r" "is_version v" "R r"
  using assms by (auto simp: rest_in_def version_split_Some is_version_def split: option.splits)

lemma action_names_container:
  assumes "re_match reContainerAction p \<or> re_match reContainerDelete p"
  obtains ver n where "names_container p ver n"
proof -
  from assms consider "rest_in p action_rest" | "rest_in p delete_rest"
    by (auto simp: route_simps)
  then show thesis
  proof cases
    case 1
    then obtain v r where p: "p = ''/v'' @ v @ CHR ''/'' # r" "is_version v" "action_rest r"
      by (rule rest_in_SomeE)
    then obtain n a t where "r = ''containers/'' @ n @ ''/'' @ a @ t" "is_name n"
      by (auto simp: action_rest_def)
    then have "names_container p (''v'' @ v) n"
      using p by (auto simp: names_container_def ends_segment_def intro!: exI [of _ v])
    then show thesis by (rule that)
  next
    case 2
    then obtain v r where p: "p = ''/v'' @ v @ CHR ''/'' # r" "is_version v" "delete_rest r"
      by (rule rest_in_SomeE)
    then obtain n where "r = ''containers/'' @ n" "is_name n"
      by (auto simp: delete_rest_def)
    then have "names_container p (''v'' @ v) n"
      using p by (auto simp: names_container_def ends_segment_def intro!: exI [of _ v])
    then show thesis by (rule that)
  qed
qed

lemma exec_names_exec:
  assumes "re_match reExecAction p"
  obtains ver n where "names_exec p ver n"
proof -
  have "rest_in p exec_rest" using assms by (simp add: route_simps)
  then obtain v r where p: "p = ''/v'' @ v @ CHR ''/'' # r" "is_version v" "exec_rest r"
    by (rule rest_in_SomeE)
  then obtain n a where "r = ''exec/'' @ n @ ''/'' @ a" "is_name n"
    by (auto simp: exec_rest_def)
  then have "names_exec p (''v'' @ v) n"
    using p by (auto simp: names_exec_def ends_segment_def intro!: exI [of _ v])
  then show thesis by (rule that)
qed

lemma names_container_target:
  assumes "names_container p ver n"
  shows "ExtractContainerTarget p = (if n = ''json'' \<or> n = ''create'' then None else Some (ver, n))"
proof -
  from assms obtain v t where p: "p = ''/v'' @ v @ ''/containers/'' @ n @ t" "ver = ''v'' @ v"
    "is_version v" "is_name n" "ends_segment t"
    unfolding names_container_def by blast
  show ?thesis unfolding p(1,2) by (rule container_target [OF p(3-5)])
qed

lemma names_exec_target:
  assumes "names_exec p ver n"
  shows "ExtractExecTarget p = Some (ver, n)"
proof -
  from assms obtain v t where p: "p = ''/v'' @ v @ ''/exec/'' @ n @ t" "ver = ''v'' @ v"
    "is_version v" "is_name n" "ends_segment t"
    unfolding names_exec_def by blast
  show ?thesis unfolding p(1,2) by (rule exec_target [OF p(3-5)])
qed

section \<open>The filtered list\<close>

lemma map_entry_Some: "map_entry v = Some item \<longleftrightarrow> v = JNull \<and> item = None \<or> (\<exists>m. v = JObj m \<and> item = Some m)"
  by (cases v) auto

lemma map_entries_Some: "map_entries vs = Some items \<longleftrightarrow> map map_entry vs = map Some items"
proof (induction vs arbitrary: items)
  case (Cons v vs)
  have "map_entries (v # vs) = Some items \<longleftrightarrow>
      (\<exists>m ms. map_entry v = Some m \<and> map_entries vs = Some ms \<and> items = m # ms)"
    by (auto split: option.splits)
  also have "\<dots> \<longleftrightarrow> map map_entry (v # vs) = map Some items"
    unfolding Cons.IH by (cases items) auto
  finally show ?case .
qed auto

lemma map_entries_obj: "map_entries (map (\<lambda>x. JObj (f x)) xs) = Some (map (\<lambda>x. Some (f x)) xs)"
  by (simp add: map_entries_Some)

text \<open>The entries of a decoded list are well formed, two levels down.\<close>

lemma unmarshal_maps_good:
  assumes "unmarshal_maps s = Some items" "item \<in> set items"
  shows "good_fields 2 (entries item)"
proof (cases "unmarshal s")
  case (Some v)
  show ?thesis
  proof (cases v)
    case (JArr vs)
    then have vs: "map map_entry vs = map Some items"
      using assms(1) Some by (simp add: unmarshal_maps_def map_entries_Some)
    have "good_value 0 (JArr vs)"
      using unmarshal_good [of s] Some JArr by (simp only: good_value_def)
    then have good: "list_all (good_value 1) vs" by (simp add: good_arr_iff)
    have "Some item \<in> set (map map_entry vs)" using assms(2) vs by simp
    then obtain w where w: "w \<in> set vs" "map_entry w = Some item" by auto
    have "good_value 1 w" using good w(1) by (simp only: list_all_iff)
    then show ?thesis
      using w(2) by (auto simp: map_entry_Some entries_def good_obj_iff)
  qed (use assms Some in \<open>auto simp: unmarshal_maps_def\<close>)
qed (use assms in \<open>simp add: unmarshal_maps_def\<close>)

definition kept_items :: "gostring \<Rightarrow> fields option list \<Rightarrow> fields list" where
  "kept_items user arr = map entries (filter (owned_item user) arr)"

lemma filter_kept:
  "FilterContainerList body user =
     (case unmarshal_maps body of None \<Rightarrow> body
      | Some arr \<Rightarrow> marshal (JArr (map JObj (kept_items user arr))))"
  by (simp add: FilterContainerList_def kept_items_def comp_def split: option.split)

lemma kept_good:
  assumes "unmarshal_maps body = Some arr"
  shows "good_value 0 (JArr (map JObj (kept_items user arr)))"
  using unmarshal_maps_good [OF assms]
  by (auto simp: kept_items_def good_arr_iff list_all_iff good_obj_iff max_depth_def simp del: marshal.simps)

lemma filter_decodes:
  assumes "unmarshal_maps body = Some arr"
  shows "unmarshal_maps (FilterContainerList body user)
           = Some (map (\<lambda>m. Some (norm_fields m)) (kept_items user arr))"
proof -
  let ?kept = "JArr (map JObj (kept_items user arr))"
  have "unmarshal (marshal ?kept) = Some (sorted_keys ?kept)"
    by (rule unmarshal_marshal) (use kept_good [OF assms] in \<open>simp_all only: good_value_def\<close>)
  also have "sorted_keys ?kept = JArr (map (\<lambda>m. JObj (norm_fields m)) (kept_items user arr))"
    by (simp only: sorted_keys.simps(1) map_map comp_def norm_JObj)
  finally have "unmarshal (FilterContainerList body user)
      = Some (JArr (map (\<lambda>m. JObj (norm_fields m)) (kept_items user arr)))"
    unfolding filter_kept assms option.case .
  then show ?thesis unfolding unmarshal_maps_def by (simp only: option.case json.case map_entries_obj)
qed

lemma label_owner: "label_in = owner_of"
  by (rule ext) (simp add: label_in_def owner_of_def)

lemma kept_owner:
  assumes "unmarshal_maps body = Some arr" "m \<in> set (kept_items user arr)"
  shows "owner_of (norm_fields m) = Some user"
proof -
  obtain item where i: "item \<in> set arr" "owned_item user item" "m = entries item"
    using assms(2) by (auto simp: kept_items_def)
  have "wf_fields m" unfolding i(3) by (rule good_wf_fields [OF unmarshal_maps_good [OF assms(1) i(1)]])
  then show ?thesis using i(2,3) by (simp add: owner_of_norm owned_item_def label_owner)
qed

lemma kept_again:
  assumes "unmarshal_maps body = Some arr"
  shows "kept_items user (map (\<lambda>m. Some (norm_fields m)) (kept_items user arr))
           = map norm_fields (kept_items user arr)"
proof -
  have "filter (owned_item user) (map (\<lambda>m. Some (norm_fields m)) (kept_items user arr))
      = map (\<lambda>m. Some (norm_fields m)) (kept_items user arr)"
    using kept_owner [OF assms] by (auto simp: owned_item_def entries_def label_owner intro!: filter_True)
  then show ?thesis by (simp add: kept_items_def [of user "map _ _"] entries_def comp_def)
qed

lemma marshal_norm_items: "marshal (JArr (map JObj (map norm_fields ms))) = marshal (JArr (map JObj ms))"
proof -
  have "JArr (map JObj (map norm_fields ms)) = sorted_keys (JArr (map JObj ms))"
    by (simp only: sorted_keys.simps(1) map_map comp_def norm_JObj)
  then show ?thesis by (simp only: marshal_sorted)
qed

text \<open>The owner that an inspection states: the label under \<open>Config\<close>, or else the one at the top.\<close>

definition stated_owner :: "fields \<Rightarrow> gostring option" where
  "stated_owner m =
     (case Option.bind (as_obj (field_or_nil m ''Config'')) owner_of of
        Some v \<Rightarrow> Some v
      | None \<Rightarrow> owner_of m)"

lemma extract_stated:
  "user \<noteq> [] \<Longrightarrow> extractOwnerLabel m = user \<longleftrightarrow> stated_owner m = Some user"
  by (auto simp: extractOwnerLabel_def stated_owner_def label_owner split: option.splits)

lemma extract_nil: "extractOwnerLabel [] = []"
  by (simp add: extractOwnerLabel_def label_in_def field_or_nil_def)

lemma stated_nil: "stated_owner [] = None"
  by (simp add: stated_owner_def owner_of_def field_or_nil_def)

lemma unmarshal_map_iff:
  "unmarshal_map body = Some data \<longleftrightarrow>
     unmarshal body = Some JNull \<and> data = None \<or> (\<exists>m. unmarshal body = Some (JObj m) \<and> data = Some m)"
  by (auto simp: unmarshal_map_def split: option.splits json.splits)

definition owned_by :: "answers \<Rightarrow> nat \<Rightarrow> gostring \<Rightarrow> gostring \<Rightarrow> gostring \<Rightarrow> bool" where
  "owned_by answer n ver cid user \<longleftrightarrow>
     (\<exists>body m. subrequest answer n (container_inspect_path ver cid) = Some (200, body)
        \<and> unmarshal body = Some (JObj m) \<and> stated_owner m = Some user)"

lemma says_owner_owned_by: "user \<noteq> [] \<Longrightarrow> says_owner answer n ver cid user = owned_by answer n ver cid user"
  unfolding says_owner_def owned_by_def
  by (auto simp: unmarshal_map_iff entries_def extract_stated stated_nil)

lemma container_owned_errors:
  "snd (CheckContainerOwned answer n user ver cid) = Some e \<Longrightarrow>
     \<exists>status msg. e = CreateError status msg \<and> status \<in> {403, 404}"
  by (auto simp: CheckContainerOwned_def Let_def split: option.splits if_splits)

lemma container_owned_errors': "CheckContainerOwned answer n user ver cid = (reqs, Some e) \<Longrightarrow>
     \<exists>status msg. e = CreateError status msg \<and> status \<in> {403, 404}"
  using container_owned_errors [of answer n user ver cid e] by simp

lemma exec_owned_errors:
  "snd (CheckExecOwned answer user ver eid) = Some e \<Longrightarrow>
     \<exists>status msg. e = CreateError status msg \<and> status \<in> {403, 404}"
  unfolding CheckExecOwned_def Let_def
  by (auto split: option.splits if_splits prod.splits dest: container_owned_errors')

section \<open>The contract of an ownership check\<close>

text \<open>Both checks share a contract: they clear a target exactly when it is the user's, their errors
  have status 403 or 404, and their first subrequest is the inspection of the target.\<close>

locale ownership_check =
  fixes check :: "gostring \<Rightarrow> gostring \<Rightarrow> check_result"
    and owned :: "gostring \<Rightarrow> gostring \<Rightarrow> bool"
    and inspect_path :: "gostring \<Rightarrow> gostring \<Rightarrow> gostring"
  assumes check_None: "snd (check ver target) = None \<longleftrightarrow> owned ver target"
    and check_error: "snd (check ver target) = Some e \<Longrightarrow>
        \<exists>status msg. e = CreateError status msg \<and> status \<in> {403, 404}"
    and check_first: "\<exists>ss. fst (check ver target) = subrequest_bytes (inspect_path ver target) # ss"
begin

lemma decides:
  "case snd (check ver target) of
      None \<Rightarrow> owned ver target
    | Some (CreateError status msg) \<Rightarrow> \<not> owned ver target \<and> (status = 403 \<or> status = 404)
    | Some (GoPanic msg) \<Rightarrow> False"
proof (cases "snd (check ver target)")
  case (Some e)
  from check_error [OF Some] obtain status msg
    where "e = CreateError status msg" "status = 403 \<or> status = 404" by blast
  then show ?thesis using Some check_None [of ver target] by simp
qed (use check_None [of ver target] in simp)

lemma first_subrequest:
  "fst (check ver target) = s # ss \<Longrightarrow> s = subrequest_bytes (inspect_path ver target)"
  using check_first [of ver target] by auto

end

interpretation container_check: ownership_check "CheckContainerOwned answer n user"
    "\<lambda>ver cid. says_owner answer n ver cid user" container_inspect_path for answer n user
  by unfold_locales (use container_owned_None container_owned_errors container_owned_subrequests in auto)

interpretation exec_check: ownership_check "CheckExecOwned answer user"
    "\<lambda>ver eid. \<exists>cid. says_container answer ver eid cid \<and> says_owner answer 1 ver cid user"
    exec_inspect_path for answer user
proof
  show "snd (CheckExecOwned answer user ver eid) = None \<longleftrightarrow>
      (\<exists>cid. says_container answer ver eid cid \<and> says_owner answer 1 ver cid user)" for ver eid
    by (rule exec_owned_None)
  show "snd (CheckExecOwned answer user ver eid) = Some e \<Longrightarrow>
      \<exists>status msg. e = CreateError status msg \<and> status \<in> {403, 404}" for ver eid e
    by (rule exec_owned_errors)
  show "\<exists>ss. fst (CheckExecOwned answer user ver eid) = subrequest_bytes (exec_inspect_path ver eid) # ss"
    for ver eid
    by (auto simp: CheckExecOwned_def Let_def split: option.split prod.split)
qed

section \<open>Subrequests of plain paths\<close>

text \<open>The characters of an inspected path that comes from a matched request.\<close>

definition plain_path :: "gostring \<Rightarrow> bool" where
  "plain_path q \<longleftrightarrow> list_all (\<lambda>c. c \<noteq> newline \<and> c \<noteq> carriage \<and> c \<noteq> CHR '' '') q"

lemma plain_chars:
  "name_char c \<Longrightarrow> c \<noteq> newline \<and> c \<noteq> carriage \<and> c \<noteq> CHR '' ''"
  "ver_char c \<Longrightarrow> c \<noteq> newline \<and> c \<noteq> carriage \<and> c \<noteq> CHR '' ''"
proof -
  have "\<not> name_char newline" "\<not> name_char carriage" "\<not> name_char CHR '' ''"
    "\<not> ver_char newline" "\<not> ver_char carriage" "\<not> ver_char CHR '' ''" by code_simp+
  then show "name_char c \<Longrightarrow> c \<noteq> newline \<and> c \<noteq> carriage \<and> c \<noteq> CHR '' ''"
    "ver_char c \<Longrightarrow> c \<noteq> newline \<and> c \<noteq> carriage \<and> c \<noteq> CHR '' ''" by (metis)+
qed

lemma plain_append [simp]: "plain_path (s @ t) \<longleftrightarrow> plain_path s \<and> plain_path t"
  by (simp add: plain_path_def)

lemma plain_name: "is_name n \<Longrightarrow> plain_path n"
  unfolding plain_path_def is_name_def list_all_iff using plain_chars(1) by blast

lemma plain_version: "is_version v \<Longrightarrow> plain_path v"
  unfolding plain_path_def is_version_def list_all_iff using plain_chars(2) by blast

lemma plain_literals [simp]: "plain_path ''/''" "plain_path ''v''" "plain_path ''/containers/''" "plain_path ''/exec/''" "plain_path ''/json''"
  by code_simp+

lemma container_inspect_plain: "names_container p ver n \<Longrightarrow> plain_path (container_inspect_path ver n)"
  unfolding names_container_def container_inspect_path_def
  by (elim exE conjE) (simp only: plain_append plain_literals plain_name plain_version simp_thms)

lemma exec_inspect_plain: "names_exec p ver n \<Longrightarrow> plain_path (exec_inspect_path ver n)"
  unfolding names_exec_def exec_inspect_path_def
  by (elim exE conjE) (simp only: plain_append plain_literals plain_name plain_version simp_thms)

lemma subrequest_lines:
  assumes "plain_path q"
  shows "split_on newline (subrequest_bytes q) =
     [''GET '' @ q @ '' HTTP/1.1'' @ [carriage], ''Host: docker'' @ [carriage],
      ''Connection: close'' @ [carriage], [carriage], []]"
proof -
  have q: "newline \<notin> set (''GET '' @ q @ '' HTTP/1.1'' @ [carriage])"
    using assms by (auto simp: plain_path_def list_all_iff)
  have "subrequest_bytes q = (''GET '' @ q @ '' HTTP/1.1'' @ [carriage]) @ newline #
      (''Host: docker'' @ [carriage]) @ newline # (''Connection: close'' @ [carriage]) @ newline #
      [carriage] @ newline # []"
    by (simp add: subrequest_bytes_def crlf_def)
  then show ?thesis by (simp only: split_on_free_sep [OF q]) (simp add: split_on_free_sep)
qed

section \<open>Properties\<close>

text \<open>C31. A container is cleared for a user exactly when the daemon answers its inspection with
  status 200 and a JSON object that states the user as owner, under \<open>Config.Labels\<close> or, when there is
  no string there, under the top-level \<open>Labels\<close>.  In every other case (a failed subrequest,
  another status, a body that is not an object, a missing or foreign label) the check ends in an
  error with status 403 or 404 and never panics.\<close>

theorem CheckContainerOwned_decides:
  assumes "user \<noteq> []"
  shows "case snd (CheckContainerOwned answer n user ver cid) of
      None \<Rightarrow> owned_by answer n ver cid user
    | Some (CreateError status msg) \<Rightarrow> \<not> owned_by answer n ver cid user \<and> (status = 403 \<or> status = 404)
    | Some (GoPanic msg) \<Rightarrow> False"
  using container_check.decides [where answer = answer and n = n and user = user and ver = ver and target = cid]
  by (simp only: says_owner_owned_by [OF assms])

theorem CheckContainerOwned_decides_witness:
  "owned_by (\<lambda>n req. Response 200 (quotes ''{`Config`:{`Labels`:{`dev.boris.isolator.user`:`alice`}}}'') True)
     0 ''v1.41'' ''web'' ''alice''"
proof -
  let ?a = "\<lambda>n req. Response 200 (quotes ''{`Config`:{`Labels`:{`dev.boris.isolator.user`:`alice`}}}'') True"
  have "snd (CheckContainerOwned ?a 0 ''alice'' ''v1.41'' ''web'') = None" by code_simp
  then show ?thesis using CheckContainerOwned_decides [of "''alice''" ?a 0 "''v1.41''" "''web''"] by simp
qed

text \<open>C32. An exec instance is cleared exactly when its own inspection names a container and the
  inspection of that container, the second subrequest, names the user; otherwise the error has
  status 403 or 404.\<close>

theorem CheckExecOwned_decides:
  "case snd (CheckExecOwned answer user ver eid) of
      None \<Rightarrow> (\<exists>cid. says_container answer ver eid cid \<and> says_owner answer 1 ver cid user)
    | Some (CreateError status msg) \<Rightarrow>
        \<not> (\<exists>cid. says_container answer ver eid cid \<and> says_owner answer 1 ver cid user) \<and> (status = 403 \<or> status = 404)
    | Some (GoPanic msg) \<Rightarrow> False"
  by (rule exec_check.decides)

text \<open>C33. The container list.  When the daemon's body is a list of objects, the filtered body
  decodes to exactly the items that carry the user's label, in their order and with their content;
  any other body is returned unchanged.\<close>

theorem filter_keeps_owned:
  "case unmarshal_maps body of
     None \<Rightarrow> FilterContainerList body user = body
   | Some arr \<Rightarrow> unmarshal_maps (FilterContainerList body user)
                  = Some (map (\<lambda>m. Some (norm_fields m)) (map entries (filter (\<lambda>item. owner_of (entries item) = Some user) arr)))"
proof (cases "unmarshal_maps body")
  case (Some arr)
  have "kept_items user arr = map entries (filter (\<lambda>item. owner_of (entries item) = Some user) arr)"
    unfolding kept_items_def owned_item_def label_owner by (rule refl)
  then show ?thesis using filter_decodes [OF Some, of user] Some by (simp only: option.case)
qed (simp add: filter_kept)

text \<open>Filtering the container list twice is filtering it once, byte for byte.\<close>

theorem filter_idempotent:
  "FilterContainerList (FilterContainerList body user) user = FilterContainerList body user"
proof (cases "unmarshal_maps body")
  case (Some arr)
  show ?thesis
    unfolding filter_kept [of "FilterContainerList body user"] filter_decodes [OF Some] option.case
      kept_again [OF Some] marshal_norm_items
    by (simp only: filter_kept Some option.case)
qed (simp add: filter_kept)

lemma makeJSONErrorBody_decodes:
  "unmarshal (makeJSONErrorBody msg) = Some (JObj [(''message'', JStr (coerce_utf8 msg))])"
  by (simp add: makeJSONErrorBody_def unmarshal_def parse_value.simps parse_members.simps in_brackets_def
     quote_def skip_ws_Cons scan_escape_string unquote_escape_string max_depth_def set_field_fresh
     skip_ws_def)

text \<open>Every error response decodes to one object with one field \<open>message\<close> that holds the
  message (invalid UTF-8 replaced), whatever the message contains: a path or a name that the client
  chose cannot break out of the string.\<close>

theorem error_body_decodes:
  "unmarshal (resp_body (writeJSONError status msg)) = Some (JObj [(''message'', JStr (coerce_utf8 msg))])"
  by (simp add: writeJSONError_def Let_def makeJSONErrorBody_decodes)

end
