(* ===== verification/Http.thy ===== *)
theory Http
  imports Ownership
begin

text \<open>
  The part of \<open>net/http\<close> and \<open>net/http/httputil\<close> that the handler rests on: requests and
  responses as the server and the transport present them, the header map, and what
  \<open>ReverseProxy.ServeHTTP\<close> makes of a request before it calls the transport.

  A header map is its list of entries in the order in which \<open>range\<close> yields them (any order),
  with canonical keys, as the server builds it.  A body is the bytes that it yields and
  the error that reading it then ends in, if any.
\<close>

section \<open>Messages\<close>

type_synonym header = "(gostring \<times> gostring list) list"

record body_stream =
  body_bytes :: gostring
  body_err :: "gostring option"

record request =
  req_method :: gostring
  req_url :: url
  req_te :: "gostring list"
  req_host :: gostring
  req_header :: header
  req_body :: "body_stream option"
  req_length :: int

record response =
  res_status :: nat
  res_header :: header
  res_body :: body_stream
  res_length :: int

definition header_values :: "header \<Rightarrow> gostring \<Rightarrow> gostring list" where
  "header_values h k = (case map_of h k of Some vs \<Rightarrow> vs | None \<Rightarrow> [])"

definition header_get :: "header \<Rightarrow> gostring \<Rightarrow> gostring" where
  "header_get h k = (case header_values h k of v # _ \<Rightarrow> v | [] \<Rightarrow> [])"

definition header_set :: "gostring \<Rightarrow> gostring \<Rightarrow> header \<Rightarrow> header" where
  "header_set k v h = AList.update k [v] h"

definition header_del :: "gostring \<Rightarrow> header \<Rightarrow> header" where
  "header_del k h = AList.delete k h"

lemma header_set_get [simp]: "map_of (header_set k v h) k' = (if k' = k then Some [v] else map_of h k')"
  by (simp add: header_set_def update_conv')

lemma header_del_get [simp]: "map_of (header_del k h) k' = (if k' = k then None else map_of h k')"
  by (simp add: header_del_def delete_conv')

section \<open>Header tokens\<close>

definition ascii_upper :: "char \<Rightarrow> char" where
  "ascii_upper c = (if in_range CHR ''a'' CHR ''z'' c then byte (of_char c - 32) else c)"

definition ascii_lower :: "char \<Rightarrow> char" where
  "ascii_lower c = (if in_range CHR ''A'' CHR ''Z'' c then byte (of_char c + 32) else c)"

text \<open>The bytes of a header name.\<close>

definition token_char :: "char \<Rightarrow> bool" where
  "token_char c \<longleftrightarrow> is_alnum c \<or> c \<in> set ''!#$%&*+-.^_|~'' \<or> c = CHR 0x27 \<or> c = CHR 0x60"

text \<open>\<open>textproto.CanonicalMIMEHeaderKey\<close>.\<close>

fun canonical_from :: "bool \<Rightarrow> gostring \<Rightarrow> gostring" where
  "canonical_from up [] = []"
| "canonical_from up (c # s) =
     (if up then ascii_upper c else ascii_lower c) # canonical_from (c = CHR ''-'') s"

definition canonical_key :: "gostring \<Rightarrow> gostring" where
  "canonical_key k = (if list_all token_char k then canonical_from True k else k)"

definition trim_set :: "gostring \<Rightarrow> gostring \<Rightarrow> gostring" where
  "trim_set cs s =
     rev (dropWhile (\<lambda>c. c \<in> set cs) (rev (dropWhile (\<lambda>c. c \<in> set cs) s)))"

text \<open>\<open>httpguts.HeaderValuesContainsToken\<close>: ASCII tokens are compared without case.\<close>

definition contains_token :: "gostring list \<Rightarrow> gostring \<Rightarrow> bool" where
  "contains_token values token \<longleftrightarrow>
     list_ex (\<lambda>v. list_ex (\<lambda>t. list_all (\<lambda>c. byte_val c < 0x80) t
          \<and> map ascii_lower (trim_set [CHR '' '', CHR 0x09] t) = map ascii_lower token)
        (split_on CHR '','' v)) values"

definition upgrade_type :: "header \<Rightarrow> gostring" where
  "upgrade_type h =
     (if contains_token (header_values h ''Connection'') ''Upgrade''
      then header_get h ''Upgrade'' else [])"

definition printable :: "gostring \<Rightarrow> bool" where
  "printable s \<longleftrightarrow> list_all (\<lambda>c. 0x20 \<le> byte_val c \<and> byte_val c \<le> 0x7E) s"

definition same_fold :: "gostring \<Rightarrow> gostring \<Rightarrow> bool" where
  "same_fold s t \<longleftrightarrow> map ascii_lower s = map ascii_lower t"

section \<open>The outgoing request\<close>

definition hop_headers :: "gostring list" where
  "hop_headers = [''Connection'', ''Proxy-Connection'', ''Keep-Alive'', ''Proxy-Authenticate'',
     ''Proxy-Authorization'', ''Te'', ''Trailer'', ''Transfer-Encoding'', ''Upgrade'']"

definition connection_headers :: "header \<Rightarrow> gostring list" where
  "connection_headers h =
     map canonical_key (filter (\<lambda>s. s \<noteq> [])
       (map (trim_set [CHR '' '', CHR 0x09, newline, carriage])
         (concat (map (split_on CHR '','') (header_values h ''Connection'')))))"

definition remove_hop_by_hop :: "header \<Rightarrow> header" where
  "remove_hop_by_hop h = fold header_del (connection_headers h @ hop_headers) h"

text \<open>\<open>X-Forwarded-For\<close>: \<open>remote\<close> is the host of \<open>RemoteAddr\<close> when it splits into host and port,
  which the address of a Unix socket does not.\<close>

definition forwarded_for :: "gostring option \<Rightarrow> header \<Rightarrow> header" where
  "forwarded_for remote h =
     (case remote of
        None \<Rightarrow> h
      | Some ip \<Rightarrow>
          (case map_of h ''X-Forwarded-For'' of
             None \<Rightarrow> header_set ''X-Forwarded-For'' ip h
           | Some [] \<Rightarrow> h
           | Some (v # vs) \<Rightarrow>
               header_set ''X-Forwarded-For'' (concat (map (\<lambda>p. p @ '', '') (v # vs)) @ ip) h))"

definition outgoing_header :: "gostring option \<Rightarrow> header \<Rightarrow> header" where
  "outgoing_header remote h =
     (let h1 = remove_hop_by_hop h;
          h2 = (if contains_token (header_values h ''Te'') ''trailers''
                then header_set ''Te'' ''trailers'' h1 else h1);
          h3 = (if upgrade_type h \<noteq> []
                then header_set ''Upgrade'' (upgrade_type h) (header_set ''Connection'' ''Upgrade'' h2)
                else h2);
          h4 = forwarded_for remote h3
      in if map_of h4 ''User-Agent'' = None then header_set ''User-Agent'' [] h4 else h4)"

text \<open>The request that \<open>ReverseProxy\<close> gives to the transport, with the proxy's \<open>Director\<close> as a
  parameter.\<close>

definition outgoing :: "(request \<Rightarrow> request) \<Rightarrow> gostring option \<Rightarrow> request \<Rightarrow> request" where
  "outgoing director remote r =
     (let out = director (if req_length r = 0 then r\<lparr>req_body := None\<rparr> else r)
      in out\<lparr>req_header := outgoing_header remote (req_header out)\<rparr>)"

lemma fold_header_del: "map_of (fold header_del ks h) k = (if k \<in> set ks then None else map_of h k)"
  by (induction ks arbitrary: h) auto

lemma forwarded_for_other:
  assumes "k \<noteq> ''X-Forwarded-For''"
  shows "map_of (forwarded_for remote h) k = map_of h k"
proof (cases remote)
  case (Some ip)
  show ?thesis
  proof (cases "map_of h ''X-Forwarded-For''")
    case (Some vs)
    then show ?thesis using \<open>remote = Some ip\<close> assms by (cases vs) (simp_all only: forwarded_for_def option.case list.case header_set_get if_False)
  qed (simp only: forwarded_for_def Some option.case header_set_get assms if_False)
qed (simp only: forwarded_for_def option.case)

lemma header_set_other: "k \<noteq> k' \<Longrightarrow> map_of (header_set k' v h) k = map_of h k"
  by (simp only: header_set_get if_False)

lemma map_of_if: "map_of h1 k = map_of h2 k \<Longrightarrow> map_of (if b then h1 else h2) k = map_of h2 k"
  by (cases b) simp_all

lemma outgoing_header_other:
  assumes "k \<noteq> ''X-Forwarded-For''" "k \<noteq> ''Te''" "k \<noteq> ''Upgrade''" "k \<noteq> ''Connection''" "k \<noteq> ''User-Agent''"
  shows "map_of (outgoing_header remote h) k = map_of (remove_hop_by_hop h) k"
  unfolding outgoing_header_def Let_def
  by (intro map_of_if trans [OF map_of_if] trans [OF forwarded_for_other] trans [OF header_set_other] assms refl)

lemma outgoing_no_te: "map_of (outgoing_header remote h) ''Transfer-Encoding'' = None"
proof -
  have te: "''Transfer-Encoding'' \<in> set (connection_headers h @ hop_headers)"
    by (simp add: hop_headers_def)
  have "map_of (remove_hop_by_hop h) ''Transfer-Encoding'' = None"
    unfolding remove_hop_by_hop_def fold_header_del using te by (simp only: if_True)
  then show ?thesis by (simp add: outgoing_header_other)
qed

end
