(* ===== verification/Handler.thy ===== *)
theory Handler
  imports Http
begin

text \<open>
  \<open>internal/proxy/proxy.go\<close>: the handler of one request.  \<open>ServeHTTP\<close> is the list of events
  that the handling of a request produces, in order: log lines, responses, subrequests, what
  is sent to the daemon.  The outside is the record \<open>world\<close>: the file tree, the daemon's
  answers, and which of the socket operations succeed.
\<close>

section \<open>Events\<close>

datatype event =
    ELog gostring "gostring list"
  | ERespond http_response
  | EReply response
  | ESub gostring
  | EForward request
  | EUpgrade response
  | EDial gostring
  | EHijack
  | EWrite gostring
  | ERelay
  | ECloseClient
  | ECloseUpstream
  | EPanic gostring

record handler =
  User :: gostring
  UpstreamSocket :: gostring

record world =
  w_paths :: path_config
  w_fs :: fsys
  w_answers :: answers
  w_round_trip :: "request \<Rightarrow> gostring + response"
  w_remote :: "gostring option"
  w_hijacker :: bool
  w_dial_ok :: bool
  w_hijack_ok :: bool
  w_write_ok :: bool
  w_buffered :: gostring
  w_flush_ok :: bool

definition NewHandler :: "gostring \<Rightarrow> gostring \<Rightarrow> handler" where
  "NewHandler user upstreamSocket = \<lparr>User = user, UpstreamSocket = upstreamSocket\<rparr>"

section \<open>Route predicates\<close>

definition isLargeBodyPath :: "gostring \<Rightarrow> gostring \<Rightarrow> bool" where
  "isLargeBodyPath meth path =
     (if meth \<noteq> ''POST'' then False
      else if re_match reBuild path then True
      else if re_match reImagesLoad path then True
      else False)"

definition isContainerCreatePath :: "gostring \<Rightarrow> gostring \<Rightarrow> bool" where
  "isContainerCreatePath meth path \<longleftrightarrow> meth = ''POST'' \<and> re_match reContainersCreate path"

definition isNetworkCreatePath :: "gostring \<Rightarrow> gostring \<Rightarrow> bool" where
  "isNetworkCreatePath meth path \<longleftrightarrow> meth = ''POST'' \<and> re_match reNetworksCreate path"

definition streaming_parts :: "gostring list" where
  "streaming_parts = [''/attach'', ''/exec'', ''/wait'', ''/logs'', ''/events'']"

definition isStreamingPath :: "gostring \<Rightarrow> bool" where
  "isStreamingPath path \<longleftrightarrow> list_ex (\<lambda>sub. contains sub path) streaming_parts"

section \<open>Bodies\<close>

datatype read_error = BodyTooLarge | ReadFailed

text \<open>\<open>io.ReadAll(io.LimitReader(r, limit+1))\<close>: the limit is reached before a later failure of
  the stream is seen.\<close>

definition readBoundedBody :: "body_stream \<Rightarrow> int \<Rightarrow> read_error + gostring" where
  "readBoundedBody r limit =
     (if limit < int (length (body_bytes r)) then Inl BodyTooLarge
      else if body_err r \<noteq> None then Inl ReadFailed
      else Inr (body_bytes r))"

text \<open>The same read by read.  \<open>io.ReadAll\<close> asks the \<open>io.LimitedReader\<close> until it reports the end, which it
  does when \<open>limit\<close> bytes were handed out; the \<open>k\<close>-th read of the stream yields at least one and at
  most \<open>chunk k + 1\<close> bytes, whatever the buffer and the network make of it.  The second component
  is what is left of the stream.\<close>

function read_all_limited :: "(nat \<Rightarrow> nat) \<Rightarrow> nat \<Rightarrow> nat \<Rightarrow> gostring \<Rightarrow> gostring option \<Rightarrow> gostring \<Rightarrow>
    (gostring + gostring) \<times> gostring" where
  "read_all_limited chunk k limit left err got =
     (if limit = 0 then (Inr got, left)
      else if left = [] then ((case err of None \<Rightarrow> Inr got | Some e \<Rightarrow> Inl e), [])
      else let n = min (min limit (chunk k + 1)) (length left)
           in read_all_limited chunk (k + 1) (limit - n) (drop n left) err (got @ take n left))"
  by pat_completeness auto
termination
  by (relation "measure (\<lambda>(chunk, k, limit, left, err, got). limit)") auto

declare read_all_limited.simps [simp del]

definition read_bounded :: "(nat \<Rightarrow> nat) \<Rightarrow> body_stream \<Rightarrow> int \<Rightarrow> (read_error + gostring) \<times> gostring" where
  "read_bounded chunk r limit =
     (case read_all_limited chunk 0 (nat (limit + 1)) (body_bytes r) (body_err r) [] of
        (Inl err, left) \<Rightarrow> (Inl ReadFailed, left)
      | (Inr body, left) \<Rightarrow>
          if limit < int (length body) then (Inl BodyTooLarge, left) else (Inr body, left))"

definition rewriteRequestBody :: "request \<Rightarrow> gostring \<Rightarrow> request" where
  "rewriteRequestBody r newBody =
     r\<lparr>req_body := Some \<lparr>body_bytes = newBody, body_err = None\<rparr>,
       req_length := int (length newBody),
       req_header := header_del ''Transfer-Encoding''
         (header_set ''Content-Length'' (itoa (int (length newBody))) (req_header r)),
       req_te := []\<rparr>"

text \<open>\<open>r.Body\<close>: the server gives every request a body, empty when there is none.\<close>

definition request_body :: "request \<Rightarrow> body_stream" where
  "request_body r = (case req_body r of Some b \<Rightarrow> b | None \<Rightarrow> \<lparr>body_bytes = [], body_err = None\<rparr>)"

section \<open>The reverse proxy\<close>

definition modifyResponse :: "gostring \<Rightarrow> request option \<Rightarrow> response \<Rightarrow> gostring + response" where
  "modifyResponse user request resp =
     (case request of
        None \<Rightarrow> Inr resp
      | Some req \<Rightarrow>
          if req_method req \<noteq> ''GET'' then Inr resp
          else if \<not> re_match reContainersList (url_path (req_url req)) then Inr resp
          else if res_status resp \<noteq> 200 then Inr resp
          else case body_err (res_body resp) of
            Some err \<Rightarrow> Inl err
          | None \<Rightarrow>
              let filtered = FilterContainerList (body_bytes (res_body resp)) user
              in Inr (resp\<lparr>res_body := \<lparr>body_bytes = filtered, body_err = None\<rparr>,
                   res_length := int (length filtered),
                   res_header := header_del ''Transfer-Encoding''
                     (header_set ''Content-Length'' (itoa (int (length filtered))) (res_header resp))\<rparr>))"

definition rp_director :: "request \<Rightarrow> request" where
  "rp_director req = req\<lparr>req_url := (req_url req)\<lparr>url_scheme := ''http'', url_host := ''docker''\<rparr>\<rparr>"

definition rp_error_handler :: "request \<Rightarrow> gostring \<Rightarrow> event list" where
  "rp_error_handler r err =
     [ELog ''ERROR: upstream proxy error for %s %s: %v'' [req_method r, url_path (req_url r), err],
      ERespond (writeJSONError 502 ''isolator: upstream error'')]"

text \<open>\<open>ReverseProxy.ServeHTTP\<close> with the director, the response hook and the error handler above.\<close>

definition reverse_proxy :: "handler \<Rightarrow> world \<Rightarrow> request \<Rightarrow> event list" where
  "reverse_proxy h w r =
     (let out = outgoing rp_director (w_remote w) r;
          upgrade = upgrade_type (req_header r)
      in if \<not> printable upgrade
         then rp_error_handler r ''client tried to switch to invalid protocol''
         else EForward out #
           (case w_round_trip w out of
              Inl err \<Rightarrow> rp_error_handler out err
            | Inr resp \<Rightarrow>
                let switching = res_status resp = 101;
                    resp1 = (if switching then resp
                             else resp\<lparr>res_header := remove_hop_by_hop (res_header resp)\<rparr>)
                in case modifyResponse (User h) (Some out) resp1 of
                     Inl err \<Rightarrow> rp_error_handler out err
                   | Inr resp2 \<Rightarrow>
                       if \<not> switching then [EReply resp2]
                       else if printable (upgrade_type (res_header resp2))
                            \<and> same_fold upgrade (upgrade_type (res_header resp2))
                       then [EUpgrade resp2]
                       else rp_error_handler out ''backend switched protocol''))"

definition handleLargeBody :: "handler \<Rightarrow> world \<Rightarrow> request \<Rightarrow> event list" where
  "handleLargeBody h w r = reverse_proxy h w r"

section \<open>Create handlers\<close>

definition body_error :: "read_error \<Rightarrow> event list" where
  "body_error e =
     (case e of
        BodyTooLarge \<Rightarrow>
          [ERespond (writeJSONError 413
             (''isolator: request body too large (>'' @ itoa max_body_size @ '' bytes)''))]
      | ReadFailed \<Rightarrow> [ERespond (writeJSONError 400 ''isolator: failed to read body'')])"

text \<open>The branches of the code for an error that is no \<open>CreateError\<close> cannot be reached: the checks
  return no other error.  A panic is recovered by the server, which closes the connection.\<close>

definition refuse :: "go_error \<Rightarrow> event list" where
  "refuse e =
     (case e of
        CreateError status message \<Rightarrow> [ELog ''BLOCKED: %s'' [message], ERespond (writeJSONError status message)]
      | GoPanic message \<Rightarrow> [EPanic message])"

definition handleContainerCreate :: "handler \<Rightarrow> world \<Rightarrow> request \<Rightarrow> event list" where
  "handleContainerCreate h w r =
     (case readBoundedBody (request_body r) max_body_size of
        Inl e \<Rightarrow> body_error e
      | Inr body \<Rightarrow>
          (case CheckCreate (w_paths w) (w_fs w) body (User h) of
             Inl e \<Rightarrow> refuse e
           | Inr newBody \<Rightarrow> reverse_proxy h w (rewriteRequestBody r newBody)))"

definition handleNetworkCreate :: "handler \<Rightarrow> world \<Rightarrow> request \<Rightarrow> event list" where
  "handleNetworkCreate h w r =
     (case readBoundedBody (request_body r) max_body_size of
        Inl e \<Rightarrow> body_error e
      | Inr body \<Rightarrow>
          (case CheckNetworkCreate body (User h) of
             Inl e \<Rightarrow> refuse e
           | Inr newBody \<Rightarrow> reverse_proxy h w (rewriteRequestBody r newBody)))"

section \<open>The ownership check\<close>

definition maybeCheckOwnership :: "handler \<Rightarrow> world \<Rightarrow> request \<Rightarrow> check_result" where
  "maybeCheckOwnership h w r =
     (let path = url_path (req_url r)
      in if re_match reExecAction path then
           (case ExtractExecTarget path of
              None \<Rightarrow> ([], None)
            | Some (ver, eid) \<Rightarrow> CheckExecOwned (w_answers w) (User h) ver eid)
         else if re_match reContainerAction path \<or> re_match reContainerDelete path then
           (case ExtractContainerTarget path of
              None \<Rightarrow> ([], None)
            | Some (ver, cid) \<Rightarrow> CheckContainerOwned (w_answers w) 0 (User h) ver cid)
         else ([], None))"

section \<open>Streaming\<close>

definition header_lines :: "header \<Rightarrow> gostring" where
  "header_lines hdr = concat (map (\<lambda>(k, vs). concat (map (\<lambda>v. k @ '': '' @ v @ crlf) vs)) hdr)"

definition writeRequestLine :: "request \<Rightarrow> gostring" where
  "writeRequestLine r =
     (let uri0 = request_uri (req_url r);
          uri = (if uri0 = [] then url_path (req_url r) else uri0);
          host = (if req_host r = [] then ''docker'' else req_host r)
      in req_method r @ '' '' @ uri @ '' HTTP/1.1'' @ crlf @ ''Host: '' @ host @ crlf
         @ header_lines (req_header r) @ crlf)"

definition handleStreaming :: "handler \<Rightarrow> world \<Rightarrow> request \<Rightarrow> event list" where
  "handleStreaming h w r =
     (if \<not> w_hijacker w then [ERespond (writeJSONError 500 ''isolator: hijacking not supported'')]
      else EDial (UpstreamSocket h) #
        (if \<not> w_dial_ok w then [ERespond (writeJSONError 502 ''isolator: upstream dial failed'')]
         else EHijack #
           (if \<not> w_hijack_ok w then [ECloseUpstream]
            else EWrite (writeRequestLine r) #
              (if \<not> w_write_ok w then [ECloseClient, ECloseUpstream]
               else if w_buffered w = [] then [ERelay]
               else EWrite (w_buffered w) #
                 (if \<not> w_flush_ok w then [ECloseClient, ECloseUpstream] else [ERelay])))))"

section \<open>The entry point\<close>

definition ServeHTTP :: "handler \<Rightarrow> world \<Rightarrow> request \<Rightarrow> event list" where
  "ServeHTTP h w r =
     (let meth = req_method r; path = url_path (req_url r)
      in case find (\<lambda>te. te \<noteq> ''chunked'') (req_te r) of
           Some te \<Rightarrow>
             [ELog ''BLOCKED: Transfer-Encoding %q'' [te],
              ERespond (writeJSONError 400 ''isolator: Transfer-Encoding not allowed'')]
         | None \<Rightarrow>
             if \<not> is_endpoint_allowed meth (request_uri (req_url r)) (User h)
             then [ELog ''BLOCKED endpoint: %s %s'' [meth, path],
                   ERespond (writeJSONError 403
                     (''isolator: endpoint not allowed: '' @ meth @ '' '' @ path))]
             else if isLargeBodyPath meth path then handleLargeBody h w r
             else if isContainerCreatePath meth path then handleContainerCreate h w r
             else if isNetworkCreatePath meth path then handleNetworkCreate h w r
             else (case maybeCheckOwnership h w r of
                     (subs, Some e) \<Rightarrow> map ESub subs @ refuse e
                   | (subs, None) \<Rightarrow> map ESub subs @
                       (if isStreamingPath path then handleStreaming h w r
                        else reverse_proxy h w r)))"

end
