(* ===== verification/CreateProps.thy ===== *)
theory CreateProps
  imports Bodies
begin

text \<open>
  The properties of \<open>CheckCreate\<close> and \<open>CheckNetworkCreate\<close>: what is accepted, what leaves the
  proxy, which errors are reported, what stays as it was, and where the code does something
  its comments exclude.
\<close>

section \<open>The host's path functions keep what the codec and Docker need\<close>

definition links_valid :: "fsys \<Rightarrow> bool" where
  "links_valid fs \<longleftrightarrow> (\<forall>cs t. fs cs = Some (Symlink t) \<longrightarrow> valid_utf8 t)"

lemma keeps_colon_free_resolve: "links_free CHR '':'' fs \<Longrightarrow> keeps_colon_free (resolve_path fs)"
  by (simp add: keeps_colon_free_def resolve_path_free)

lemma valid_abs_path: "list_all valid_utf8 cs \<Longrightarrow> valid_utf8 (abs_path cs)"
  by (simp add: abs_path_def valid_join_with)

lemma keeps_valid_resolve:
  assumes "links_valid fs"
  shows "keeps_valid (resolve_path fs)"
  unfolding keeps_valid_def
proof (intro allI impI)
  fix s :: gostring
  assume s: "prefix ''/'' s" "valid_utf8 s"
  have "list_all valid_utf8 (clean_comps True [] (split_on CHR ''/'' s))"
    by (rule clean_comps_all) (simp_all add: s(2) valid_split_on)
  then have c: "valid_utf8 (clean s)"
    using s(1) by (auto simp: clean_def Let_def intro: valid_abs_path)
  show "valid_utf8 (resolve_path fs s)"
  proof (cases "walk fs 0 [] (split_on CHR ''/'' (clean s))")
    case (Inl e)
    then show ?thesis using c by (simp add: resolve_path_def eval_symlinks_def Let_def)
  next
    case (Inr ds)
    have "list_all valid_utf8 ds"
      by (rule walk_all [OF Inr])
        (use assms c in \<open>auto simp: links_valid_def intro: valid_split_on\<close>)
    then show ?thesis
      using Inr by (simp add: resolve_path_def eval_symlinks_def Let_def valid_abs_path)
  qed
qed

text \<open>The rewritten body as the daemon decodes it.\<close>

lemma create_forwarded:
  assumes "CheckCreate cfg fs body user = Inr out" "valid_utf8 user" "links_valid fs"
  obtains m raw where "unmarshal_map body = Some (Some m)"
    "check_create_raw (resolve_path fs) (is_path_allowed cfg fs) user (Some m) = Inr raw"
    "wf_fields m" "wf_fields raw" "unmarshal_map out = Some (Some (norm_fields raw))"
    "out = marshal (JObj raw)"
  using create_body.forwarded_body [OF assms(1) [unfolded CheckCreate_def]]
    assms(2) keeps_valid_resolve [OF assms(3)] by metis

lemma checked_create_safe:
  assumes "CheckCreate cfg fs body user = Inr out" "valid_utf8 user" "links_valid fs"
  shows "\<exists>m. unmarshal_map out = Some (Some m)
      \<and> create_ok (cut_source (final_source (resolve_path fs) (is_path_allowed cfg fs) user)) user m
      \<and> (if links_free CHR '':'' fs
         then create_ok (final_source (resolve_path fs) (is_path_allowed cfg fs) user) user m else True)
      \<and> owner_of m = Some user"
proof -
  from create_forwarded [OF assms] obtain m raw where
    c: "check_create_raw (resolve_path fs) (is_path_allowed cfg fs) user (Some m) = Inr raw"
    and wf: "wf_fields raw" and out: "unmarshal_map out = Some (Some (norm_fields raw))" .
  have "create_ok (final_source (resolve_path fs) (is_path_allowed cfg fs) user) user raw"
    if "links_free CHR '':'' fs"
    by (rule host_paths.accepted_final [OF c keeps_colon_free_resolve [OF that]])
  moreover note host_paths.accepted_cut [OF c]
  moreover have "owner_of raw = Some user" by (rule create_body.check_owner [OF c])
  ultimately show ?thesis using out wf by (simp add: create_ok_norm owner_of_norm)
qed

section \<open>Container create\<close>

text \<open>C10. What leaves the proxy is safe.  For a user name and link targets in valid UTF-8, the body that
  \<open>CheckCreate\<close> returns decodes to an object with no dangerous host option set, no extra host but the
  gateway, networks of the user only, a user that is not root, and the user's owner label; and the
  source of every bind and mount, as the daemon reads it, is a resolved path inside the user's
  roots that is not the Docker socket, or what stands before a colon in such a path.  The second
  case needs a symbolic link whose target contains a colon; in a file tree without one, every
  source is such a path as a whole.\<close>

theorem CheckCreate_safe:
  assumes "CheckCreate cfg fs body user = Inr out" "valid_utf8 user" "links_valid fs"
  shows "\<exists>m. unmarshal_map out = Some (Some m)
      \<and> create_ok (cut_source (final_source (resolve_path fs) (is_path_allowed cfg fs) user)) user m
      \<and> (if links_free CHR '':'' fs
         then create_ok (final_source (resolve_path fs) (is_path_allowed cfg fs) user) user m else True)
      \<and> owner_of m = Some user"
  by (rule checked_create_safe [OF assms])

theorem CheckCreate_safe_witness:
  "\<exists>out. CheckCreate default_paths link_fs
       (quotes ''{`HostConfig`:{`Binds`:[`/Users/Workspaces/alice/./a:/a`]}}'') ''alice'' = Inr out
   \<and> (\<exists>m. unmarshal_map out = Some (Some m) \<and> owner_of m = Some ''alice'')"
proof -
  let ?body = "quotes ''{`HostConfig`:{`Binds`:[`/Users/Workspaces/alice/./a:/a`]}}''"
  let ?out = "quotes (''{`HostConfig`:{`Binds`:[`/Users/Workspaces/alice/a:/a`]},'' @
     ''`Labels`:{`dev.boris.isolator.user`:`alice`}}'')"
  have "CheckCreate default_paths link_fs ?body ''alice'' = Inr ?out"
    by code_simp
  moreover have "links_valid link_fs" "valid_utf8 ''alice''"
    by (auto simp: links_valid_def link_fs_def split: if_splits)
  ultimately show ?thesis using CheckCreate_safe [of default_paths link_fs ?body "''alice''" ?out] by blast
qed

text \<open>C1. Exactly the acceptable bodies are accepted: \<open>CheckCreate\<close> succeeds if and only if the
  body is within the size limit, decodes to an object, and satisfies the policy field by
  field, with a source acceptable when its resolved path is allowed and is not the Docker
  socket.\<close>

theorem CheckCreate_accepts_iff:
  "(\<exists>out. CheckCreate cfg fs body user = Inr out) \<longleftrightarrow>
     int (length body) \<le> max_body_size
     \<and> (\<exists>m. unmarshal_map body = Some (Some m)
           \<and> create_ok (source_ok (resolve_path fs) (is_path_allowed cfg fs) user) user m)"
  by (auto simp: CheckCreate_def with_json_body_def res_bind_Inr check_create_raw_Inr
      split: option.splits)

text \<open>C29. Every refusal has a status: \<open>CheckCreate\<close> fails with 413 exactly when the body is too
  large, otherwise with 400 or 403; and it panics exactly when the body is the JSON document
  \<open>null\<close>, on which it assigns into a nil map.\<close>

theorem CheckCreate_failures:
  "(case CheckCreate cfg fs body user of
      Inr out \<Rightarrow> int (length body) \<le> max_body_size
    | Inl (CreateError status msg) \<Rightarrow>
        if max_body_size < int (length body) then status = 413 else status = 400 \<or> status = 403
    | Inl (GoPanic msg) \<Rightarrow> int (length body) \<le> max_body_size \<and> unmarshal body = Some JNull)
   \<and> (if int (length body) \<le> max_body_size \<and> unmarshal body = Some JNull
      then CheckCreate cfg fs body user = Inl (GoPanic ''assignment to entry in nil map'') else True)"
proof -
  consider (big) "max_body_size < int (length body)"
    | (bad) "int (length body) \<le> max_body_size" "unmarshal_map body = None"
    | (nil) "int (length body) \<le> max_body_size" "unmarshal_map body = Some None"
    | (obj) m where "int (length body) \<le> max_body_size" "unmarshal_map body = Some (Some m)"
    by (metis not_le option.exhaust)
  then show ?thesis
  proof cases
    case obj
    then have "unmarshal body = Some (JObj m)"
      by (auto simp: unmarshal_map_def split: option.splits json.splits)
    then show ?thesis
      using obj check_create_raw_Inl [of "resolve_path fs" "is_path_allowed cfg fs" user m]
      by (auto simp: CheckCreate_def with_json_body_def split: sum.split go_error.split
          simp: res_bind_def)
  next
    case bad
    then have "unmarshal body \<noteq> Some JNull" by (auto simp: unmarshal_map_def)
    then show ?thesis using bad by (simp add: CheckCreate_def with_json_body_def)
  next
    case nil
    then have "unmarshal body = Some JNull"
      by (auto simp: unmarshal_map_def split: option.splits json.splits)
    then show ?thesis
      using nil by (simp add: CheckCreate_def with_json_body_def check_create_raw_nil)
  qed (simp add: CheckCreate_def with_json_body_def)
qed

text \<open>C27. A rewritten body passes again unchanged: submitting what \<open>CheckCreate\<close> returned gives the
  same bytes, so validating twice is validating once.  This holds for user names and link targets
  in valid UTF-8, link targets without a colon (with one the joined bind is split differently the
  second time), and a rewritten body within the size limit (the label makes it longer).\<close>

theorem CheckCreate_stable:
  assumes "CheckCreate cfg fs body user = Inr out"
    and "valid_utf8 user" "links_valid fs" "links_free CHR '':'' fs"
    and "int (length out) \<le> max_body_size"
  shows "CheckCreate cfg fs out user = Inr out"
proof -
  from create_forwarded [OF assms(1-3)] obtain m raw where
    c: "check_create_raw (resolve_path fs) (is_path_allowed cfg fs) user (Some m) = Inr raw"
    and wf: "wf_fields raw" and um: "unmarshal_map out = Some (Some (norm_fields raw))"
    and out: "out = marshal (JObj raw)" .
  have "create_ok (final_source (resolve_path fs) (is_path_allowed cfg fs) user) user (norm_fields raw)"
    using host_paths.accepted_final [OF c keeps_colon_free_resolve [OF assms(4)]] wf
    by (simp add: create_ok_norm)
  moreover have "owner_of (norm_fields raw) = Some user"
    using create_body.check_owner [OF c] wf by (simp add: owner_of_norm)
  ultimately have "check_create_raw (resolve_path fs) (is_path_allowed cfg fs) user
      (Some (norm_fields raw)) = Inr (norm_fields raw)"
    by (rule host_paths.final_fixed)
  moreover have "marshal (JObj (norm_fields raw)) = out"
    unfolding out norm_JObj [symmetric] by (rule marshal_sorted)
  ultimately show ?thesis
    using um assms(5) by (simp add: CheckCreate_def with_json_body_def)
qed

theorem CheckCreate_stable_witness:
  "CheckCreate default_paths link_fs (quotes ''{`Labels`:{`dev.boris.isolator.user`:`bob`}}'') ''bob''
     = Inr (quotes ''{`Labels`:{`dev.boris.isolator.user`:`bob`}}'')"
proof -
  let ?out = "quotes ''{`Labels`:{`dev.boris.isolator.user`:`bob`}}''"
  have "CheckCreate default_paths link_fs ''{}'' ''bob'' = Inr ?out"
    "int (length ?out) \<le> max_body_size"
    by code_simp+
  moreover have "links_valid link_fs" "links_free CHR '':'' link_fs" "valid_utf8 ''bob''"
    by (auto simp: links_valid_def links_free_def link_fs_def split: if_splits)
  ultimately show ?thesis using CheckCreate_stable [of default_paths link_fs "''{}''" "''bob''" ?out] by blast
qed

text \<open>The fields of an object, with every object inside in key order: values are compared as the
  daemon sees them.\<close>

definition same_field :: "fields \<Rightarrow> fields \<Rightarrow> gostring \<Rightarrow> bool" where
  "same_field m m' k \<longleftrightarrow> field m' k = map_option sorted_keys (field m k)"

definition inner :: "fields \<Rightarrow> gostring \<Rightarrow> fields" where
  "inner m k = (case as_obj (field_or_nil m k) of None \<Rightarrow> [] | Some n \<Rightarrow> n)"

lemma norm_fields_Nil: "norm_fields [] = []"
  by (simp add: norm_fields_def)

lemma inner_norm:
  "distinct (map fst m) \<Longrightarrow> inner (norm_fields m) k = norm_fields (inner m k)"
  using norm_fields_Nil by (simp add: inner_def field_or_nil_norm_fields split: option.split)

lemma wf_inner:
  assumes "wf_fields m"
  shows "wf_fields (inner m k)"
proof (cases "as_obj (field_or_nil m k)")
  case (Some n)
  then have "field m k = Some (JObj n)"
    by (simp add: field_or_nil_def json_simps split: option.splits)
  from wf_field [OF assms this] show ?thesis using Some by (simp add: inner_def wf_fields_def)
qed (simp add: inner_def wf_fields_def)

lemma inner_labelled_other: "k \<noteq> ''Labels'' \<Longrightarrow> inner (labelled user m) k = inner m k"
  by (simp add: inner_def labelled_def)

lemma field_inner_labels:
  "k \<noteq> owner_label \<Longrightarrow> field (inner (labelled user m) ''Labels'') k = field (inner m ''Labels'') k"
  by (simp add: inner_def labelled_def owner_labels_def split: option.split)

lemma inner_resolved_other: "k \<noteq> ''HostConfig'' \<Longrightarrow> inner (resolved_host_config resolve m) k = inner m k"
  by (simp add: inner_def field_or_nil_def field_resolved_host_config)

lemma field_inner_host_config:
  assumes "k \<noteq> ''Binds''" "k \<noteq> ''Mounts''"
  shows "field (inner (resolved_host_config resolve m) ''HostConfig'') k
           = field (inner m ''HostConfig'') k"
proof (cases "present m ''HostConfig''")
  case (Some v)
  then have f: "field m ''HostConfig'' = Some v" by (simp add: present_Some)
  show ?thesis
    using assms Some f
    by (cases v) (auto simp: inner_def resolved_host_config_def field_or_nil_def field_map_field)
qed (simp add: resolved_host_config_def)

lemma owner_of_fields:
  assumes "owner_of m = Some user"
  shows "field m ''Labels'' = Some (JObj (inner m ''Labels''))"
    "field (inner m ''Labels'') owner_label = Some (JStr user)"
proof -
  obtain l where l: "as_obj (field_or_nil m ''Labels'') = Some l"
    "as_str (field_or_nil l owner_label) = Some user"
    using assms by (auto simp: owner_of_def split: option.splits)
  then have i: "inner m ''Labels'' = l" by (simp add: inner_def)
  show "field m ''Labels'' = Some (JObj (inner m ''Labels''))"
    "field (inner m ''Labels'') owner_label = Some (JStr user)"
    using l unfolding i by (simp_all add: field_or_nil_def json_simps split: option.splits)
qed

text \<open>C28. The fields that the proxy does not rewrite come back as it decoded them.  For a user name and
  link targets in valid UTF-8, the rewritten body has, outside \<open>HostConfig.Binds\<close>,
  \<open>HostConfig.Mounts\<close> and \<open>Labels\<close>, exactly the fields of the client's body in the top-level object and
  in \<open>HostConfig\<close>, with the values as Go decodes both bodies: numbers as \<open>float64\<close>, so an integer that
  \<open>float64\<close> does not represent is compared after rounding, and strings with invalid bytes replaced.
  \<open>Labels\<close> is an object with the fields of the client's labels, or with none of them when those were
  not an object, except for the owner label, which names the user.\<close>

theorem CheckCreate_frame:
  assumes "CheckCreate cfg fs body user = Inr out" "valid_utf8 user" "links_valid fs"
  shows "\<exists>m m'. unmarshal_map body = Some (Some m) \<and> unmarshal_map out = Some (Some m')
      \<and> (\<forall>k. k = ''HostConfig'' \<or> k = ''Labels'' \<or> same_field m m' k)
      \<and> (\<forall>k. k = ''Binds'' \<or> k = ''Mounts'' \<or>
            same_field (inner m ''HostConfig'') (inner m' ''HostConfig'') k)
      \<and> field m' ''Labels'' = Some (JObj (inner m' ''Labels''))
      \<and> (\<forall>k. if k = owner_label then field (inner m' ''Labels'') k = Some (JStr user)
             else same_field (inner m ''Labels'') (inner m' ''Labels'') k)"
proof -
  from create_forwarded [OF assms] obtain m raw where um: "unmarshal_map body = Some (Some m)"
    and c: "check_create_raw (resolve_path fs) (is_path_allowed cfg fs) user (Some m) = Inr raw"
    and wf: "wf_fields m" "wf_fields raw"
    and out: "unmarshal_map out = Some (Some (norm_fields raw))" .
  have raw: "raw = labelled user (resolved_host_config (resolve_path fs) m)"
    using c by (simp add: check_create_raw_Inr)
  have "same_field m (norm_fields raw) k" if "k \<noteq> ''HostConfig''" "k \<noteq> ''Labels''" for k
  proof -
    have "field raw k = field m k"
      using that by (simp add: raw field_labelled field_resolved_host_config)
    then show ?thesis using wf(2) by (simp add: same_field_def field_norm_fields)
  qed
  moreover have "same_field (inner m ''HostConfig'') (inner (norm_fields raw) ''HostConfig'') k"
    if "k \<noteq> ''Binds''" "k \<noteq> ''Mounts''" for k
  proof -
    have "field (inner raw ''HostConfig'') k = field (inner m ''HostConfig'') k"
      using that by (simp add: raw inner_labelled_other field_inner_host_config)
    then show ?thesis
      using wf(2) wf_inner [OF wf(2)] by (simp add: same_field_def field_norm_fields inner_norm)
  qed
  moreover have "same_field (inner m ''Labels'') (inner (norm_fields raw) ''Labels'') k"
    if "k \<noteq> owner_label" for k
  proof -
    have "field (inner raw ''Labels'') k = field (inner m ''Labels'') k"
      using that by (simp add: raw field_inner_labels inner_resolved_other)
    then show ?thesis
      using wf(2) wf_inner [OF wf(2)] by (simp add: same_field_def field_norm_fields inner_norm)
  qed
  moreover have "owner_of (norm_fields raw) = Some user"
    using create_body.check_owner [OF c] wf(2) by (simp add: owner_of_norm)
  note owner_of_fields [OF this]
  ultimately show ?thesis using um out by (intro exI conjI allI) auto
qed

theorem CheckCreate_frame_witness:
  "\<exists>m m'. unmarshal_map (quotes ''{`Image`:`x`}'') = Some (Some m)
     \<and> unmarshal_map (quotes ''{`Image`:`x`,`Labels`:{`dev.boris.isolator.user`:`bob`}}'') = Some (Some m')
     \<and> same_field m m' ''Image''"
proof -
  have c: "CheckCreate default_paths link_fs (quotes ''{`Image`:`x`}'') ''bob''
      = Inr (quotes ''{`Image`:`x`,`Labels`:{`dev.boris.isolator.user`:`bob`}}'')"
    by code_simp
  have l: "valid_utf8 ''bob''" "links_valid link_fs"
    by (auto simp: links_valid_def link_fs_def split: if_splits)
  from CheckCreate_frame [OF c l] obtain m m' where
    m: "unmarshal_map (quotes ''{`Image`:`x`}'') = Some (Some m)"
    "unmarshal_map (quotes ''{`Image`:`x`,`Labels`:{`dev.boris.isolator.user`:`bob`}}'') = Some (Some m')"
    and f: "\<forall>k. k = ''HostConfig'' \<or> k = ''Labels'' \<or> same_field m m' k"
    by (elim exE conjE)
  from f [THEN spec, of "''Image''"] have "same_field m m' ''Image''" by simp
  with m show ?thesis by (intro exI conjI)
qed

text \<open>The order in which Go enumerates the endpoint map decides only the message: for any two
  orders of \<open>NetworkingConfig.EndpointsConfig\<close> the check accepts both or neither.\<close>

theorem endpoints_any_order:
  "set (map fst eps) = set (map fst eps') \<longrightarrow>
   (check_endpoints user [(''NetworkingConfig'', JObj [(''EndpointsConfig'', JObj eps)])] = Inr ()
    \<longleftrightarrow> check_endpoints user [(''NetworkingConfig'', JObj [(''EndpointsConfig'', JObj eps')])] = Inr ())"
proof -
  have "check_endpoints user [(''NetworkingConfig'', JObj [(''EndpointsConfig'', JObj e)])] = Inr ()
      \<longleftrightarrow> (\<forall>k \<in> set (map fst e). networkAllowedForUser k user)" for e
    by (simp add: check_endpoints_Inr endpoints_ok_def present_def list_all_iff case_prod_beta)
  then show ?thesis by (simp only: simp_thms) metis
qed

theorem endpoints_any_order_witness:
  "check_endpoints ''bob'' [(''NetworkingConfig'', JObj [(''EndpointsConfig'',
      JObj [(''bridge'', JNull), (''iso-bob'', JNull)])])] = Inr ()
   \<longleftrightarrow> check_endpoints ''bob'' [(''NetworkingConfig'', JObj [(''EndpointsConfig'',
      JObj [(''iso-bob'', JNull), (''bridge'', JNull)])])] = Inr ()"
  using endpoints_any_order [of "[(''bridge'', JNull), (''iso-bob'', JNull)]"
      "[(''iso-bob'', JNull), (''bridge'', JNull)]" "''bob''"] by auto

section \<open>Where the code departs from its comments\<close>

text \<open>A workspace with a directory \<open>x:\<close>, a link into it, and a link \<open>x\<close> to the root.\<close>

definition colon_fs :: fsys where
  "colon_fs cs =
     (if cs \<in> set [[''Users''], [''Users'', ''Workspaces''], [''Users'', ''Workspaces'', ''eve''],
        [''Users'', ''Workspaces'', ''eve'', ''x:''], [''Users'', ''Workspaces'', ''eve'', ''x:'', ''mnt'']]
      then Some Dir
      else if cs = [''Users'', ''Workspaces'', ''eve'', ''l''] then Some (Symlink ''x:/mnt'')
      else if cs = [''Users'', ''Workspaces'', ''eve'', ''x''] then Some (Symlink ''/'')
      else None)"

text \<open>A resolved source that contains a colon is not checked as Docker reads it: the bind is
  split at colons before resolution and joined after it, so a link to a directory \<open>x:/mnt\<close>
  yields a bind whose source is \<open>x\<close>, here a link to the host's root, outside every root of
  the user.\<close>

theorem bind_colon_escapes:
  "let out = ''/Users/Workspaces/eve/x:/mnt''
   in validateAndRewriteBind (resolve_path colon_fs) (is_path_allowed default_paths colon_fs) ''eve''
        ''/Users/Workspaces/eve/l'' = Inr out
      \<and> hd (split_on CHR '':'' out) = ''/Users/Workspaces/eve/x''
      \<and> resolve_path colon_fs (hd (split_on CHR '':'' out)) = ''/''
      \<and> \<not> is_path_allowed default_paths colon_fs ''/'' ''eve''"
  by code_simp

text \<open>Integers above 2^53 are not preserved: every number passes through \<open>float64\<close>, so a field
  the proxy does not inspect can leave with another value than it came with.\<close>

theorem numbers_lose_precision:
  "CheckCreate default_paths link_fs (quotes ''{`Memory`:100000000000000001}'') ''bob''
     = Inr (quotes (''{`Labels`:{`dev.boris.isolator.user`:`bob`},'' @ ''`Memory`:100000000000000000}''))"
proof -
  let ?m = "[(''Memory'', JNum (F64 False 6250000000000000 4))]"
  let ?r = "?m @ [(''Labels'', JObj [(owner_label, JStr ''bob'')])]"
  have "unmarshal_map (quotes ''{`Memory`:100000000000000001}'') = Some (Some ?m)"
    by code_simp
  moreover have "check_create_raw (resolve_path link_fs) (is_path_allowed default_paths link_fs)
      ''bob'' (Some ?m) = Inr ?r"
    by code_simp
  moreover have "marshal (JObj ?r) = quotes (''{`Labels`:{`dev.boris.isolator.user`:`bob`},'' @
      ''`Memory`:100000000000000000}'')"
    by code_simp
  moreover have "\<not> max_body_size < int (length (quotes ''{`Memory`:100000000000000001}''))"
    by code_simp
  ultimately show ?thesis
    by (simp only: CheckCreate_def with_json_body_def if_False option.case res_bind_simps)
qed

text \<open>Field names are compared exactly: a body whose host options are spelled \<open>hostConfig\<close> is
  accepted and forwarded with them, although a decoder that matches field names without
  regard to case, as Go's does for structs, reads them as \<open>HostConfig\<close>.\<close>

theorem field_names_case:
  "CheckCreate default_paths link_fs (quotes ''{`hostConfig`:{`Privileged`:true}}'') ''bob''
     = Inr (quotes (''{`Labels`:{`dev.boris.isolator.user`:`bob`},'' @
         ''`hostConfig`:{`Privileged`:true}}''))"
  by code_simp

section \<open>Network create\<close>

text \<open>C30. \<open>CheckNetworkCreate\<close> accepts exactly the bodies within the size limit that decode to an
  object with no driver or the bridge driver, a name that is not reserved for another user, and
  no \<open>ConfigFrom\<close>; every refusal has status 413, 400 or 403, and it never panics.\<close>

theorem CheckNetworkCreate_decides:
  "(case CheckNetworkCreate body user of
      Inr out \<Rightarrow>
        int (length body) \<le> max_body_size
        \<and> (\<exists>m. unmarshal_map body = Some (Some m) \<and> network_ok user m)
    | Inl (CreateError status msg) \<Rightarrow>
        (if max_body_size < int (length body) then status = 413 else status = 400 \<or> status = 403)
        \<and> \<not> (int (length body) \<le> max_body_size
              \<and> (\<exists>m. unmarshal_map body = Some (Some m) \<and> network_ok user m))
    | Inl (GoPanic msg) \<Rightarrow> False)"
proof (cases "max_body_size < int (length body)")
  case True
  then show ?thesis by (simp add: CheckNetworkCreate_def with_json_body_def)
next
  case small: False
  show ?thesis
  proof (cases "unmarshal_map body")
    case None
    then show ?thesis using small by (simp add: CheckNetworkCreate_def with_json_body_def)
  next
    case (Some raw)
    show ?thesis
    proof (cases "check_network_raw user raw")
      case (Inl e)
      then have "client_error e" by (rule check_network_raw_Inl)
      moreover have "\<not> network_ok user m" if "raw = Some m" for m
        using Inl check_network_raw_Inr [of user "Some m"] that by auto
      ultimately show ?thesis
        using small Some Inl
        by (cases e) (auto simp: CheckNetworkCreate_def with_json_body_def)
    next
      case (Inr out)
      then obtain m where "raw = Some m" "network_ok user m"
        by (auto simp: check_network_raw_Inr split: option.splits)
      then show ?thesis
        using small Some Inr by (simp add: CheckNetworkCreate_def with_json_body_def)
    qed
  qed
qed

text \<open>What leaves \<open>CheckNetworkCreate\<close> decodes to the same acceptable object with the user's
  owner label on it.\<close>

theorem CheckNetworkCreate_safe:
  assumes "CheckNetworkCreate body user = Inr out" "valid_utf8 user"
  shows "\<exists>m m'. unmarshal_map body = Some (Some m) \<and> unmarshal_map out = Some (Some m')
      \<and> network_ok user m' \<and> owner_of m' = Some user
      \<and> (\<forall>k. k = ''Labels'' \<or> same_field m m' k)"
proof -
  from network_body.forwarded_body [OF assms(1) [unfolded CheckNetworkCreate_def] assms(2)]
  obtain m raw where um: "unmarshal_map body = Some (Some m)"
    and c: "check_network_raw user (Some m) = Inr raw"
    and wf: "wf_fields m" "wf_fields raw"
    and out: "unmarshal_map out = Some (Some (norm_fields raw))" .
  have raw: "network_ok user m" "raw = labelled user m"
    using c by (simp_all add: check_network_raw_Inr)
  have "network_ok user (norm_fields raw) \<and> owner_of (norm_fields raw) = Some user"
    using raw wf by (simp add: network_ok_norm owner_of_norm)
  moreover have "same_field m (norm_fields raw) k" if "k \<noteq> ''Labels''" for k
    using wf(2) that by (simp add: same_field_def field_norm_fields) (simp add: raw(2) field_labelled)
  ultimately show ?thesis using um out by (intro exI conjI allI) blast+
qed

theorem CheckNetworkCreate_safe_witness:
  "\<exists>m. unmarshal_map (quotes ''{`Labels`:{`dev.boris.isolator.user`:`bob`},`Name`:`iso-bob-x`}'')
         = Some (Some m) \<and> network_ok ''bob'' m \<and> owner_of m = Some ''bob''"
proof -
  have c: "CheckNetworkCreate (quotes ''{`Name`:`iso-bob-x`}'') ''bob''
      = Inr (quotes ''{`Labels`:{`dev.boris.isolator.user`:`bob`},`Name`:`iso-bob-x`}'')"
    by code_simp
  have "valid_utf8 ''bob''" by simp
  from CheckNetworkCreate_safe [OF c this] show ?thesis by (elim exE conjE) (intro exI conjI)
qed

lemma hyphen_free_prefix:
  "CHR ''-'' \<notin> set u \<Longrightarrow> CHR ''-'' \<notin> set v \<Longrightarrow> u @ CHR ''-'' # a = v @ CHR ''-'' # b \<Longrightarrow> u = v"
proof -
  assume h: "CHR ''-'' \<notin> set u" "CHR ''-'' \<notin> set v" "u @ CHR ''-'' # a = v @ CHR ''-'' # b"
  have "cut_at CHR ''-'' (u @ CHR ''-'' # a) = (u, a, True)"
    "cut_at CHR ''-'' (v @ CHR ''-'' # b) = (v, b, True)"
    using h(1,2) by (simp_all add: cut_at_found)
  then show "u = v" unfolding h(3) by (metis prod.inject)
qed

text \<open>Reserved network names separate users: when neither user name contains a hyphen, no name is
  in the namespace of both.\<close>

theorem own_networks_disjoint:
  assumes "u \<noteq> v" "CHR ''-'' \<notin> set u" "CHR ''-'' \<notin> set v" "own_network u name"
  shows "\<not> own_network v name"
proof
  assume "own_network v name"
  then obtain a b where "name = ''iso-'' @ u @ a" "a = [] \<or> (\<exists>a'. a = CHR ''-'' # a')"
    "name = ''iso-'' @ v @ b" "b = [] \<or> (\<exists>b'. b = CHR ''-'' # b')"
    using assms(4) by (auto simp: own_network_def prefix_def)
  then have eq: "u @ a = v @ b" and ab: "a = [] \<or> (\<exists>a'. a = CHR ''-'' # a')"
    "b = [] \<or> (\<exists>b'. b = CHR ''-'' # b')" by auto
  then show False
    using assms(1-3) hyphen_free_prefix [OF assms(2,3)] by auto
qed

theorem own_networks_disjoint_witness: "\<not> own_network ''bob'' ''iso-alice-net''"
  by (rule own_networks_disjoint [of "''alice''"]; code_simp)

text \<open>With a hyphen in a user name the namespaces overlap: \<open>alice\<close> may create the network of
  \<open>alice-bob\<close>.\<close>

theorem own_networks_overlap:
  "network_ok ''alice'' [(''Name'', JStr ''iso-alice-bob'')] \<and> own_network ''alice-bob'' ''iso-alice-bob''
   \<and> networkAllowedForUser ''iso-alice-bob'' ''alice-bob''"
  by code_simp

end
