(* ===== verification/Mediation.thy ===== *)
theory Mediation
  imports Handler CreateProps
begin

text \<open>
  The facts about \<open>ServeHTTP\<close> from which the properties of the handler follow: which branch an
  event that reaches the daemon comes from (\<open>sent_cases\<close>), how the path on which the handler
  routes (decoded) and the path that the allowlist checked and the daemon reads (escaped) are
  related (\<open>allowed_target\<close>, \<open>wire_container\<close>), what the forwarded bodies are, and that every
  list of events has one conclusion.
\<close>

section \<open>Forwarded and rewritten requests\<close>

lemmas outgoing_defs = outgoing_def rp_director_def Let_def

lemma outgoing_simps [simp]:
  "req_method (outgoing rp_director remote r) = req_method r"
  "url_path (req_url (outgoing rp_director remote r)) = url_path (req_url r)"
  "url_opaque (req_url (outgoing rp_director remote r)) = url_opaque (req_url r)"
  "req_length (outgoing rp_director remote r) = req_length r"
  "req_te (outgoing rp_director remote r) = req_te r"
  "req_body (outgoing rp_director remote r) = (if req_length r = 0 then None else req_body r)"
  "req_header (outgoing rp_director remote r) = outgoing_header remote (req_header r)"
  by (simp_all add: outgoing_defs)

lemma request_uri_cong:
  assumes "url_opaque u = []" "url_opaque v = []" "url_path u = url_path v"
    "url_raw_path u = url_raw_path v" "url_force_query u = url_force_query v"
    "url_raw_query u = url_raw_query v"
  shows "request_uri u = request_uri v"
proof -
  have "escaped_path u = escaped_path v" by (simp only: escaped_path_def assms)
  then show ?thesis by (simp only: request_uri_def Let_def assms simp_thms if_True)
qed

lemma outgoing_uri:
  assumes "url_opaque (req_url r) = []"
  shows "request_uri (req_url (outgoing rp_director remote r)) = request_uri (req_url r)"
  by (rule request_uri_cong) (use assms in \<open>simp_all add: outgoing_defs\<close>)

lemma rewrite_simps [simp]:
  "req_method (rewriteRequestBody r body) = req_method r"
  "req_url (rewriteRequestBody r body) = req_url r"
  "req_host (rewriteRequestBody r body) = req_host r"
  "req_te (rewriteRequestBody r body) = []"
  "req_length (rewriteRequestBody r body) = int (length body)"
  "req_body (rewriteRequestBody r body) = Some \<lparr>body_bytes = body, body_err = None\<rparr>"
  by (simp_all add: rewriteRequestBody_def)

text \<open>The events through which a request reaches beyond its own response.\<close>

fun reaches :: "event \<Rightarrow> bool" where
  "reaches (ELog _ _) = False"
| "reaches (ERespond _) = False"
| "reaches (EPanic _) = False"
| "reaches _ = True"

definition quiet :: "event list \<Rightarrow> bool" where
  "quiet es \<longleftrightarrow> list_all (\<lambda>e. \<not> reaches e) es"

lemma quiet_simps [simp]:
  "quiet (rp_error_handler r err)" "quiet (refuse e)" "quiet (body_error b)"
  by (simp_all add: quiet_def rp_error_handler_def refuse_def body_error_def
      split: go_error.split read_error.split)

lemma reaches_forward: "reaches (EForward out)" and reaches_reply: "reaches (EReply res)"
  by simp_all

lemma quiet_in: "quiet es \<Longrightarrow> e \<in> set es \<Longrightarrow> \<not> reaches e"
  by (simp add: quiet_def list_all_iff)

lemma sent_allowed:
  assumes "e \<in> set (ServeHTTP h w r)" "reaches e"
  shows "find (\<lambda>te. te \<noteq> ''chunked'') (req_te r) = None"
    and "is_endpoint_allowed (req_method r) (request_uri (req_url r)) (User h)"
proof -
  show te: "find (\<lambda>te. te \<noteq> ''chunked'') (req_te r) = None"
    using assms by (cases "find (\<lambda>te. te \<noteq> ''chunked'') (req_te r)") (auto simp: ServeHTTP_def)
  show "is_endpoint_allowed (req_method r) (request_uri (req_url r)) (User h)"
    using assms te by (cases "is_endpoint_allowed (req_method r) (request_uri (req_url r)) (User h)")
      (auto simp: ServeHTTP_def Let_def)
qed

text \<open>Both create handlers read the body, check it and pass the result on.\<close>

lemma create_handler_cases:
  assumes "e \<in> set (case readBoundedBody b limit of Inl x \<Rightarrow> body_error x
      | Inr body \<Rightarrow> (case check body of Inl x \<Rightarrow> refuse x | Inr newBody \<Rightarrow> next newBody))" "reaches e"
  obtains newBody where "readBoundedBody b limit = Inr (body_bytes b)" "check (body_bytes b) = Inr newBody"
    "e \<in> set (next newBody)"
proof (cases "readBoundedBody b limit")
  case (Inl x)
  then show thesis using assms quiet_in [OF quiet_simps(3)] by simp
next
  case (Inr body)
  then have body: "body = body_bytes b" by (auto simp: readBoundedBody_def split: if_splits)
  show thesis
  proof (cases "check body")
    case (Inl x)
    then show thesis using assms Inr quiet_in [OF quiet_simps(2)] by simp
  next
    case (Inr newBody)
    then show thesis using assms(1) \<open>readBoundedBody b limit = Inr body\<close> body that by simp
  qed
qed

lemma sent_cases:
  assumes e: "e \<in> set (ServeHTTP h w r)" "reaches e"
  obtains (large) "isLargeBodyPath (req_method r) (url_path (req_url r))" "e \<in> set (reverse_proxy h w r)"
  | (create) newBody where "isContainerCreatePath (req_method r) (url_path (req_url r))"
      "readBoundedBody (request_body r) max_body_size = Inr (body_bytes (request_body r))"
      "CheckCreate (w_paths w) (w_fs w) (body_bytes (request_body r)) (User h) = Inr newBody"
      "e \<in> set (reverse_proxy h w (rewriteRequestBody r newBody))"
  | (network) newBody where "isNetworkCreatePath (req_method r) (url_path (req_url r))"
      "readBoundedBody (request_body r) max_body_size = Inr (body_bytes (request_body r))"
      "CheckNetworkCreate (body_bytes (request_body r)) (User h) = Inr newBody"
      "e \<in> set (reverse_proxy h w (rewriteRequestBody r newBody))"
  | (sub) s where "e = ESub s" "s \<in> set (fst (maybeCheckOwnership h w r))"
  | (stream) "snd (maybeCheckOwnership h w r) = None" "isStreamingPath (url_path (req_url r))"
      "e \<in> set (handleStreaming h w r)" "set (handleStreaming h w r) \<subseteq> set (ServeHTTP h w r)"
  | (proxied) "\<not> isLargeBodyPath (req_method r) (url_path (req_url r))"
      "\<not> isContainerCreatePath (req_method r) (url_path (req_url r))"
      "\<not> isNetworkCreatePath (req_method r) (url_path (req_url r))"
      "snd (maybeCheckOwnership h w r) = None" "\<not> isStreamingPath (url_path (req_url r))"
      "e \<in> set (reverse_proxy h w r)"
proof -
  let ?m = "req_method r" and ?p = "url_path (req_url r)"
  note te = sent_allowed(1) [OF e] and ok = sent_allowed(2) [OF e]
  have err: "e \<notin> set (refuse g)" for g
    using e(2) quiet_in quiet_simps by blast+
  note serve = ServeHTTP_def [of h w r, unfolded Let_def te option.case]
  show thesis
  proof (cases "isLargeBodyPath ?m ?p")
    case True
    then show thesis
      using e(1) ok by (intro large) (simp_all only: serve simp_thms if_True if_False handleLargeBody_def)
  next
    case l: False
    show thesis
    proof (cases "isContainerCreatePath ?m ?p")
      case True
      then have "e \<in> set (handleContainerCreate h w r)"
        using e(1) ok l by (simp only: serve simp_thms if_True if_False)
      then show thesis
        using e(2) unfolding handleContainerCreate_def
          by (rule create_handler_cases) (rule create [OF True])
    next
      case c: False
      show thesis
      proof (cases "isNetworkCreatePath ?m ?p")
        case True
        then have "e \<in> set (handleNetworkCreate h w r)"
          using e(1) ok l c by (simp only: serve simp_thms if_True if_False)
        then show thesis
          using e(2) unfolding handleNetworkCreate_def
          by (rule create_handler_cases) (rule network [OF True])
      next
        case n: False
        obtain subs res where own: "maybeCheckOwnership h w r = (subs, res)" by fastforce
        have all: "ServeHTTP h w r = (case (subs, res) of (subs, Some e) \<Rightarrow> map ESub subs @ refuse e
            | (subs, None) \<Rightarrow> map ESub subs @
                (if isStreamingPath ?p then handleStreaming h w r else reverse_proxy h w r))"
          using ok l c n own by (simp only: serve simp_thms if_True if_False)
        then consider "e \<in> ESub ` set subs" | "res = None" "isStreamingPath ?p" "e \<in> set (handleStreaming h w r)"
          | "res = None" "\<not> isStreamingPath ?p" "e \<in> set (reverse_proxy h w r)"
          using err e(1) by (cases res; cases "isStreamingPath ?p") auto
        then show thesis
        proof cases
          case 1
          then show thesis using sub own by auto
        next
          case 2
          moreover from 2 have "set (handleStreaming h w r) \<subseteq> set (ServeHTTP h w r)"
            using all by auto
          ultimately show thesis using stream own by simp
        next
          case 3
          then show thesis using proxied l c n own by simp
        qed
      qed
    qed
  qed
qed

section \<open>What the daemon reads and what the proxy routes on\<close>

text \<open>\<open>url.Parse\<close> sets \<open>Opaque\<close> only to a rest that does not begin with a slash.\<close>

definition server_url :: "url \<Rightarrow> bool" where
  "server_url u \<longleftrightarrow> \<not> prefix ''/'' (url_opaque u)"

text \<open>The path in the request line that reaches the daemon.\<close>

definition wire_path :: "url \<Rightarrow> gostring" where
  "wire_path u = fst (path_and_query (request_uri u))"

lemma wire_path_escaped:
  assumes "url_opaque u = []" "escaped_path u \<noteq> []"
  shows "path_and_query (request_uri u) = (escaped_path u, url_raw_query u)" "wire_path u = escaped_path u"
  using cut_request_uri [OF assms] by (simp_all add: path_and_query_def wire_path_def)

lemma endpoint_path_slash:
  assumes "endpoint_spec user q meth p"
  shows "prefix ''/'' p \<and> p \<noteq> ''/''"
  using assms by cases simp_all

lemma path_and_query_prefix: "prefix (fst (path_and_query uri)) uri"
proof -
  obtain a b f where c: "cut_at CHR ''?'' uri = (a, b, f)" by (cases "cut_at CHR ''?'' uri")
  then have "uri = (if f then a @ CHR ''?'' # b else a)" using cut_at_parts by blast
  then show ?thesis using c by (auto simp: path_and_query_def prefix_def split: if_splits)
qed

text \<open>An allowed request has an origin-form target, and its wire path is the escaped path.\<close>

lemma allowed_target:
  assumes "is_endpoint_allowed meth (request_uri u) user" "server_url u"
  shows "url_opaque u = []" "wire_path u = escaped_path u"
    "path_allowed meth (escaped_path u) (url_raw_query u) user"
    "unescape False (escaped_path u) = Some (url_path u)"
proof -
  obtain p q where pq: "path_and_query (request_uri u) = (p, q)" by fastforce
  have ok: "path_allowed meth p q user"
    using assms(1) by (simp add: is_endpoint_allowed_def pq)
  then have spec: "endpoint_spec user q meth p" by (simp add: path_allowed_iff)
  obtain t where t: "request_uri u = p @ t"
    using path_and_query_prefix [of "request_uri u"] by (auto simp: pq prefix_def)
  have slash: "prefix ''/'' (request_uri u)"
    unfolding t by (rule prefix_prefix [OF conjunct1 [OF endpoint_path_slash [OF spec]]])
  show opq: "url_opaque u = []"
  proof (rule ccontr)
    assume o: "url_opaque u \<noteq> []"
    then obtain c cs where "url_opaque u = c # cs" by (cases "url_opaque u") auto
    then show False
      using slash assms(2) by (auto simp: server_url_def request_uri_def Let_def split: if_splits)
  qed
  have e: "escaped_path u \<noteq> []"
  proof
    assume "escaped_path u = []"
    then have "p = ''/''" using opq pq
      by (auto simp: request_uri_def path_and_query_def Let_def split: if_splits)
    then show False using endpoint_path_slash [OF spec] by simp
  qed
  show "wire_path u = escaped_path u" by (rule wire_path_escaped(2) [OF opq e])
  show "path_allowed meth (escaped_path u) (url_raw_query u) user"
    using ok pq wire_path_escaped(1) [OF opq e] by simp
  have "escaped_path u \<noteq> ''*''"
    using conjunct1 [OF endpoint_path_slash [OF spec]] pq wire_path_escaped(1) [OF opq e] by auto
  then show "unescape False (escaped_path u) = Some (url_path u)"
    using unescape_escaped_path [of u] by (auto simp: escaped_path_def split: if_splits)
qed

lemma unescape_plain_append:
  "CHR ''%'' \<notin> set s \<Longrightarrow> unescape False (s @ t) = map_option ((@) s) (unescape False t)"
  by (cases "unescape False t"; induction s) auto

section \<open>Names in decoded and in wire paths\<close>

lemma no_percent: "\<not> ver_char CHR ''%''" "\<not> name_char CHR ''%''"
  by code_simp+

lemma is_version_plain: "is_version v \<Longrightarrow> CHR ''%'' \<notin> set v"
  using no_percent(1) by (auto simp: is_version_def)

lemma is_name_plain: "is_name n \<Longrightarrow> CHR ''%'' \<notin> set n"
  using no_percent(2) by (auto simp: is_name_def)

lemma unescape_subpath:
  assumes "is_subpath t" "unescape False t = Some t'"
  shows "ends_segment t'" "newline \<notin> set t' \<Longrightarrow> is_subpath t'"
  using assms by (auto simp: is_subpath_def ends_segment_def)

text \<open>A route without an open tail has no percent sign.\<close>

lemma fixed_route_decoded:
  assumes "rest_in e (\<lambda>r. r = lit1)" "CHR ''%'' \<notin> set lit1" "unescape False e = Some p"
  shows "p = e"
proof -
  obtain v r where e: "e = ''/v'' @ v @ CHR ''/'' # r" "is_version v" "r = lit1"
    using assms(1) by (rule rest_in_SomeE)
  then have "CHR ''%'' \<notin> set e" using is_version_plain assms(2) by auto
  then show ?thesis using assms(3) by (simp add: unescape_plain)
qed

text \<open>A wire path that names a container action or deletion decodes to a path with the same
  version, name and action.\<close>

lemma action_decoded:
  assumes "re_match reContainerAction e" "unescape False e = Some p"
  obtains v n a t t' where "e = ''/v'' @ v @ ''/containers/'' @ n @ ''/'' @ a @ t"
    "p = ''/v'' @ v @ ''/containers/'' @ n @ ''/'' @ a @ t'" "unescape False t = Some t'"
    "is_version v" "is_name n" "a \<in> set container_actions" "is_subpath t"
proof -
  have "rest_in e action_rest" using assms(1) by (simp only: route_container_action)
  then obtain v r where e: "e = ''/v'' @ v @ CHR ''/'' # r" "is_version v" "action_rest r"
    by (rule rest_in_SomeE)
  then obtain n a t where r: "r = ''containers/'' @ n @ ''/'' @ a @ t" "is_name n"
    "a \<in> set container_actions" "is_subpath t" by (auto simp: action_rest_def)
  let ?s = "''/v'' @ v @ ''/containers/'' @ n @ ''/'' @ a"
  have "CHR ''%'' \<notin> set a" using r(3) by (auto simp: container_actions_def)
  then have s: "CHR ''%'' \<notin> set ?s"
    using is_version_plain [OF e(2)] is_name_plain [OF r(2)] by simp
  have es: "e = ?s @ t" using e(1) r(1) by simp
  have "map_option ((@) ?s) (unescape False t) = Some p"
    using assms(2) unfolding es by (simp only: unescape_plain_append [OF s])
  then obtain t' where t: "unescape False t = Some t'" "?s @ t' = p"
    by (simp only: map_option_eq_Some) blast
  show thesis by (rule that [OF _ _ t(1) e(2) r(2-4)]) (simp_all add: es flip: t(2))
qed

lemma delete_decoded:
  assumes "re_match reContainerDelete e" "unescape False e = Some p"
  shows "p = e"
proof -
  have "rest_in e delete_rest" using assms(1) by (simp only: route_container_delete)
  then obtain v r where e: "e = ''/v'' @ v @ CHR ''/'' # r" "is_version v" "delete_rest r"
    by (rule rest_in_SomeE)
  then obtain n where n: "r = ''containers/'' @ n" "is_name n" by (auto simp: delete_rest_def)
  have "CHR ''%'' \<notin> set e"
    using is_version_plain [OF e(2)] is_name_plain [OF n(2)] by (simp add: e(1) n(1))
  then show ?thesis using assms(2) by (simp add: unescape_plain)
qed

lemma exec_decoded:
  assumes "re_match reExecAction e" "unescape False e = Some p"
  shows "p = e"
proof -
  have "rest_in e exec_rest" using assms(1) by (simp only: route_exec_action)
  then obtain v r where e: "e = ''/v'' @ v @ CHR ''/'' # r" "is_version v" "exec_rest r"
    by (rule rest_in_SomeE)
  then obtain n a where n: "r = ''exec/'' @ n @ ''/'' @ a" "is_name n" "a \<in> {''start'', ''resize'', ''json''}"
    by (auto simp: exec_rest_def)
  have "CHR ''%'' \<notin> set a" using n(3) by auto
  then have "CHR ''%'' \<notin> set e"
    using is_version_plain [OF e(2)] is_name_plain [OF n(2)] by (simp add: e(1) n(1))
  then show ?thesis using assms(2) by (simp add: unescape_plain)
qed

lemma names_container_split:
  assumes "names_container p ver n"
  obtains v t where "version_split p = Some (v, ''containers/'' @ n @ t)" "ver = ''v'' @ v" "is_name n"
    "ends_segment t"
proof -
  from assms obtain v t where p: "p = ''/v'' @ v @ ''/containers/'' @ n @ t" "ver = ''v'' @ v"
    "is_version v" "is_name n" "ends_segment t"
    unfolding names_container_def by blast
  have "version_split p = Some (v, ''containers/'' @ n @ t)"
    using version_split_versioned [OF p(3), of "''containers/'' @ n @ t"] p(1) by simp
  then show thesis using that p by blast
qed

lemma names_container_unique:
  assumes "names_container p ver n" "names_container p ver' n'"
  shows "ver' = ver" "n' = n"
proof -
  obtain v t where a: "version_split p = Some (v, ''containers/'' @ n @ t)" "ver = ''v'' @ v" "is_name n"
    "ends_segment t" using assms(1) by (rule names_container_split)
  obtain v' t' where b: "version_split p = Some (v', ''containers/'' @ n' @ t')" "ver' = ''v'' @ v'"
    "is_name n'" "ends_segment t'" using assms(2) by (rule names_container_split)
  show "ver' = ver" using a b by simp
  obtain ws ws' where "split_on CHR ''/'' (n @ t) = n # ws" "split_on CHR ''/'' (n' @ t') = n' # ws'"
    using split_on_segment [OF is_name_no_slash] a b by metis
  moreover have "n @ t = n' @ t'" using a b by simp
  ultimately show "n' = n" by simp
qed

text \<open>A path that names a container is none of the special routes.\<close>

lemma names_container_routes:
  assumes "names_container p ver n" "n \<noteq> ''create''"
  shows "\<not> isLargeBodyPath meth p" "\<not> isContainerCreatePath meth p" "\<not> isNetworkCreatePath meth p"
    "\<not> re_match reExecAction p"
proof -
  obtain v t where p: "version_split p = Some (v, ''containers/'' @ n @ t)" "is_name n" "ends_segment t"
    using assms(1) by (rule names_container_split)
  have "''containers/'' @ n @ t \<noteq> ''containers/create''"
  proof
    assume "''containers/'' @ n @ t = ''containers/create''"
    then have nt: "n @ t = ''create''" by simp
    obtain ws where "split_on CHR ''/'' (n @ t) = n # ws"
      using split_on_segment [OF is_name_no_slash [OF p(2)] p(3)] by blast
    then show False using assms(2) unfolding nt by simp
  qed
  then show "\<not> isLargeBodyPath meth p" "\<not> isContainerCreatePath meth p" "\<not> isNetworkCreatePath meth p"
    "\<not> re_match reExecAction p"
    using p(1) by (auto simp: isLargeBodyPath_def isContainerCreatePath_def isNetworkCreatePath_def
        route_simps rest_in_def exec_rest_def)
qed

text \<open>The routes that act on one container.\<close>

definition acts_on_container :: "gostring \<Rightarrow> bool" where
  "acts_on_container p \<longleftrightarrow> re_match reContainerAction p \<or> re_match reContainerDelete p"

lemma wire_container:
  assumes "unescape False e = Some p" "acts_on_container e" "names_container e ver n"
  shows "names_container p ver n" "newline \<notin> set p \<Longrightarrow> acts_on_container p"
proof -
  have "names_container p ver n \<and> (newline \<notin> set p \<longrightarrow> acts_on_container p)"
  proof (cases "re_match reContainerDelete e")
    case True
    then show ?thesis using delete_decoded [OF True assms(1)] assms by simp
  next
    case False
    then have "re_match reContainerAction e" using assms(2) by (simp add: acts_on_container_def)
    from action_decoded [OF this assms(1)] obtain v m a t t' where
      e: "e = ''/v'' @ v @ ''/containers/'' @ m @ ''/'' @ a @ t"
      and p: "p = ''/v'' @ v @ ''/containers/'' @ m @ ''/'' @ a @ t'" and t: "unescape False t = Some t'"
      and v: "is_version v" and m: "is_name m" and a: "a \<in> set container_actions" and s: "is_subpath t" .
    have names: "names_container (''/v'' @ v @ ''/containers/'' @ m @ ''/'' @ u) (''v'' @ v) m" for u
      unfolding names_container_def using v m by (intro exI [of _ v] exI [of _ "''/'' @ u"]) (simp add: ends_segment_def)
    have eq: "''v'' @ v = ver" "m = n"
      using names_container_unique [OF assms(3) names [of "a @ t", folded e]] by simp_all
    have "names_container p ver n"
      using names [of "a @ t'", folded p] unfolding eq .
    moreover have "re_match reContainerAction p" if "newline \<notin> set p"
    proof -
      have "is_subpath t'" using that p by (intro unescape_subpath(2) [OF s t]) simp
      then have r: "action_rest (''containers/'' @ m @ ''/'' @ a @ t')"
        unfolding action_rest_def using m a by blast
      have p': "p = ''/v'' @ v @ ''/'' @ ''containers/'' @ m @ ''/'' @ a @ t'" using p by simp
      show ?thesis
        unfolding route_container_action rest_in_def p' version_split_versioned [OF v] option.case prod.case
        by (rule r)
    qed
    ultimately show ?thesis by (simp add: acts_on_container_def)
  qed
  then show "names_container p ver n" "newline \<notin> set p \<Longrightarrow> acts_on_container p" by simp_all
qed

section \<open>Ownership before anything is sent\<close>

text \<open>The events by which the client's request itself goes to the daemon.\<close>

fun sends :: "event \<Rightarrow> bool" where
  "sends (EForward _) = True"
| "sends (EWrite _) = True"
| "sends ERelay = True"
| "sends (EUpgrade _) = True"
| "sends _ = False"

lemma sends_reaches: "sends e \<Longrightarrow> reaches e"
  by (cases e) simp_all

lemma container_checked:
  assumes "e \<in> set (ServeHTTP h w r)" "sends e"
    and n: "names_container (url_path (req_url r)) ver n" "n \<noteq> ''json''" "n \<noteq> ''create''"
    and acts: "acts_on_container (url_path (req_url r))"
  shows "says_owner (w_answers w) 0 ver n (User h)"
proof -
  note routes = names_container_routes [OF n(1,3)]
  have target: "maybeCheckOwnership h w r = CheckContainerOwned (w_answers w) 0 (User h) ver n"
    using acts routes(4) names_container_target [OF n(1)] n(2,3)
    by (simp add: maybeCheckOwnership_def acts_on_container_def Let_def)
  have "snd (maybeCheckOwnership h w r) = None"
    using assms(1) sends_reaches [OF assms(2)]
    by (cases rule: sent_cases) (use routes assms(2) in simp_all)
  then show ?thesis by (simp add: target container_owned_None)
qed

lemma names_exec_rest: "re_match reExecAction p \<Longrightarrow> \<not> acts_on_container p \<and> \<not> isLargeBodyPath m p
    \<and> \<not> isContainerCreatePath m p \<and> \<not> isNetworkCreatePath m p"
proof -
  assume "re_match reExecAction p"
  then obtain v r where p: "version_split p = Some (v, r)" "exec_rest r"
    by (auto simp: route_exec_action rest_in_def split: option.splits)
  have "resource r = ''exec''" by (rule rest_resource(3) [OF p(2)])
  then have "\<not> action_rest r" "\<not> delete_rest r" "r \<noteq> ''build''" "r \<noteq> ''images/load''"
    "r \<noteq> ''containers/create''" "r \<noteq> ''networks/create''"
    using not_rest(1) [of r] fixed_rests_resource by auto
  then show ?thesis
    using p(1) by (simp add: acts_on_container_def isLargeBodyPath_def isContainerCreatePath_def
        isNetworkCreatePath_def route_simps rest_in_def)
qed

lemma exec_checked:
  assumes "e \<in> set (ServeHTTP h w r)" "sends e"
    and n: "names_exec (url_path (req_url r)) ver n" and acts: "re_match reExecAction (url_path (req_url r))"
  shows "\<exists>cid. says_container (w_answers w) ver n cid \<and> says_owner (w_answers w) 1 ver cid (User h)"
proof -
  note routes = names_exec_rest [OF acts]
  have target: "maybeCheckOwnership h w r = CheckExecOwned (w_answers w) (User h) ver n"
    using acts names_exec_target [OF n(1)] by (simp add: maybeCheckOwnership_def Let_def)
  have "snd (maybeCheckOwnership h w r) = None"
    using assms(1) sends_reaches [OF assms(2)]
    by (cases rule: sent_cases) (use routes assms(2) in simp_all)
  then show ?thesis by (simp add: target exec_owned_None)
qed

text \<open>The same, stated of the path that the daemon reads.\<close>

lemma sends_owned_container:
  assumes "e \<in> set (ServeHTTP h w r)" "sends e" "server_url (req_url r)" "User h \<noteq> []"
    and "acts_on_container (wire_path (req_url r))" "names_container (wire_path (req_url r)) ver n"
    and "n \<noteq> ''json''" "n \<noteq> ''create''" "newline \<notin> set (url_path (req_url r))"
  shows "owned_by (w_answers w) 0 ver n (User h)"
proof -
  have ok: "is_endpoint_allowed (req_method r) (request_uri (req_url r)) (User h)"
    by (rule sent_allowed(2) [OF assms(1) sends_reaches [OF assms(2)]])
  note t = allowed_target(2,4) [OF ok assms(3)]
  note wire = wire_container [OF t(2) assms(5,6) [unfolded t(1)]]
  have "says_owner (w_answers w) 0 ver n (User h)"
    by (rule container_checked [OF assms(1,2) wire(1) assms(7,8) wire(2) [OF assms(9)]])
  then show ?thesis by (simp add: says_owner_owned_by [OF assms(4)])
qed

lemma sends_owned_exec:
  assumes "e \<in> set (ServeHTTP h w r)" "sends e" "server_url (req_url r)" "User h \<noteq> []"
    and "re_match reExecAction (wire_path (req_url r))" "names_exec (wire_path (req_url r)) ver n"
  shows "\<exists>cid. says_container (w_answers w) ver n cid \<and> owned_by (w_answers w) 1 ver cid (User h)"
proof -
  have ok: "is_endpoint_allowed (req_method r) (request_uri (req_url r)) (User h)"
    by (rule sent_allowed(2) [OF assms(1) sends_reaches [OF assms(2)]])
  note t = allowed_target(2,4) [OF ok assms(3)]
  have "url_path (req_url r) = wire_path (req_url r)"
    using exec_decoded [OF assms(5) [unfolded t(1)] t(2)] t(1) by simp
  then show ?thesis
    using exec_checked [OF assms(1,2), of ver n] assms(5,6) by (simp add: says_owner_owned_by [OF assms(4)])
qed

section \<open>What is forwarded\<close>

lemma reverse_proxy_forward:
  assumes "EForward out \<in> set (reverse_proxy h w r)"
  shows "out = outgoing rp_director (w_remote w) r"
proof -
  have "EForward out \<notin> set (rp_error_handler r' err)" for r' err
    using quiet_in [OF quiet_simps(1), of "EForward out"] by auto
  then show ?thesis
    using assms by (auto simp: reverse_proxy_def Let_def split: if_splits sum.splits)
qed

lemma reverse_proxy_no_relay: "ERelay \<notin> set (reverse_proxy h w r)" "EWrite s \<notin> set (reverse_proxy h w r)"
proof -
  have "e \<notin> set (rp_error_handler r' err)" if "reaches e" for e r' err
    using quiet_in [OF quiet_simps(1)] that by blast
  then show "ERelay \<notin> set (reverse_proxy h w r)" "EWrite s \<notin> set (reverse_proxy h w r)"
    by (auto simp: reverse_proxy_def Let_def split: if_splits sum.splits)
qed

lemma streaming_no_forward: "EForward out \<notin> set (handleStreaming h w r)" "EReply res \<notin> set (handleStreaming h w r)"
  by (simp_all add: handleStreaming_def)

lemma forward_from:
  assumes "EForward out \<in> set (ServeHTTP h w r)"
  obtains r' where "out = outgoing rp_director (w_remote w) r'" "req_method r' = req_method r"
    "req_url r' = req_url r"
proof -
  have reach: "reaches (EForward out)" by simp
  from assms reach show thesis
  proof (cases rule: sent_cases)
    case large
    then show thesis using that reverse_proxy_forward by blast
  next
    case create
    then show thesis using that reverse_proxy_forward rewrite_simps by blast
  next
    case network
    then show thesis using that reverse_proxy_forward rewrite_simps by blast
  next
    case proxied
    then show thesis using that reverse_proxy_forward by blast
  qed (use streaming_no_forward in simp_all)
qed

lemma request_uri_ne: "request_uri u \<noteq> []"
  by (simp add: request_uri_def Let_def)

lemma relay_streams:
  assumes "ERelay \<in> set (ServeHTTP h w r)"
  shows "ERelay \<in> set (handleStreaming h w r)" "set (handleStreaming h w r) \<subseteq> set (ServeHTTP h w r)"
proof -
  have reach: "reaches ERelay" by simp
  have "ERelay \<in> set (handleStreaming h w r) \<and> set (handleStreaming h w r) \<subseteq> set (ServeHTTP h w r)"
    using assms reach by (cases rule: sent_cases) (use reverse_proxy_no_relay in simp_all)
  then show "ERelay \<in> set (handleStreaming h w r)" "set (handleStreaming h w r) \<subseteq> set (ServeHTTP h w r)"
    by simp_all
qed

text \<open>All that a request in relay mode causes, in order.\<close>

lemma relay_events:
  assumes "ERelay \<in> set (ServeHTTP h w r)"
  shows "ServeHTTP h w r = map ESub (fst (maybeCheckOwnership h w r))
     @ [EDial (UpstreamSocket h), EHijack, EWrite (writeRequestLine r)]
     @ (if w_buffered w = [] then [] else [EWrite (w_buffered w)]) @ [ERelay]"
proof -
  have "ERelay \<notin> set (refuse g)" "ERelay \<notin> set (body_error b)" for g b
    by (simp_all add: refuse_def body_error_def split: go_error.split read_error.split)
  with assms have "ServeHTTP h w r = map ESub (fst (maybeCheckOwnership h w r)) @ handleStreaming h w r"
    using reverse_proxy_no_relay
    by (auto simp: ServeHTTP_def Let_def handleLargeBody_def handleContainerCreate_def handleNetworkCreate_def
        split: option.splits sum.splits prod.splits if_splits)
  moreover from this have "ERelay \<in> set (handleStreaming h w r)" using assms by auto
  then have "handleStreaming h w r = [EDial (UpstreamSocket h), EHijack, EWrite (writeRequestLine r)]
      @ (if w_buffered w = [] then [] else [EWrite (w_buffered w)]) @ [ERelay]"
    by (simp add: handleStreaming_def split: if_splits)
  ultimately show ?thesis by simp
qed

section \<open>Bodies and responses\<close>

lemma marshal_obj_ne: "marshal (JObj m) \<noteq> []"
  by (simp add: in_brackets_def)

lemma create_route_decoded:
  assumes "is_endpoint_allowed m (request_uri u) user" "server_url u" "m = ''POST''"
  shows "re_match reContainersCreate (wire_path u) \<Longrightarrow> isContainerCreatePath m (url_path u)"
    "re_match reNetworksCreate (wire_path u) \<Longrightarrow> isNetworkCreatePath m (url_path u)"
proof -
  note t = allowed_target(2,4) [OF assms(1,2)]
  show "isContainerCreatePath m (url_path u)" if "re_match reContainersCreate (wire_path u)"
  proof -
    have "rest_in (escaped_path u) (\<lambda>r. r = ''containers/create'')"
      using that by (simp add: t(1) route_containers_create)
    from fixed_route_decoded [OF this _ t(2)] that show ?thesis
      by (simp add: isContainerCreatePath_def assms(3) t(1))
  qed
  show "isNetworkCreatePath m (url_path u)" if "re_match reNetworksCreate (wire_path u)"
  proof -
    have "rest_in (escaped_path u) (\<lambda>r. r = ''networks/create'')"
      using that by (simp add: t(1) route_networks_create)
    from fixed_route_decoded [OF this _ t(2)] that show ?thesis
      by (simp add: isNetworkCreatePath_def assms(3) t(1))
  qed
qed

lemma list_route_decoded:
  assumes "is_endpoint_allowed m (request_uri u) user" "server_url u"
    "re_match reContainersList (wire_path u)"
  shows "re_match reContainersList (url_path u)"
proof -
  note t = allowed_target(2,4) [OF assms(1,2)]
  have "rest_in (escaped_path u) (\<lambda>r. r = ''containers/json'')"
    using assms(3) by (simp add: t(1) route_containers_list)
  from fixed_route_decoded [OF this _ t(2)] show ?thesis using assms(3) by (simp add: t(1))
qed

text \<open>Routes with distinct fixed rests exclude one another.\<close>

lemma create_not_others:
  assumes "isContainerCreatePath m p"
  shows "\<not> isLargeBodyPath m p" "\<not> isNetworkCreatePath m p"
  using assms by (auto simp: isContainerCreatePath_def isLargeBodyPath_def isNetworkCreatePath_def
      route_simps rest_in_def split: option.splits)

lemma network_not_others:
  assumes "isNetworkCreatePath m p"
  shows "\<not> isLargeBodyPath m p" "\<not> isContainerCreatePath m p"
  using assms by (auto simp: isContainerCreatePath_def isLargeBodyPath_def isNetworkCreatePath_def
      route_simps rest_in_def split: option.splits)

lemma forwarded_create:
  assumes "EForward out \<in> set (ServeHTTP h w r)"
    and "isContainerCreatePath (req_method r) (url_path (req_url r))"
  obtains newBody where "CheckCreate (w_paths w) (w_fs w) (body_bytes (request_body r)) (User h) = Inr newBody"
    "out = outgoing rp_director (w_remote w) (rewriteRequestBody r newBody)"
proof -
  have reach: "reaches (EForward out)" by simp
  from assms(1) reach show thesis
  proof (cases rule: sent_cases)
    case (create newBody)
    then show thesis using that [OF create(3)] reverse_proxy_forward [OF create(4)] by simp
  qed (use assms(2) create_not_others streaming_no_forward in simp_all)
qed

lemma forwarded_network:
  assumes "EForward out \<in> set (ServeHTTP h w r)"
    and "isNetworkCreatePath (req_method r) (url_path (req_url r))"
  obtains newBody where "CheckNetworkCreate (body_bytes (request_body r)) (User h) = Inr newBody"
    "out = outgoing rp_director (w_remote w) (rewriteRequestBody r newBody)"
proof -
  have reach: "reaches (EForward out)" by simp
  from assms(1) reach show thesis
  proof (cases rule: sent_cases)
    case (network newBody)
    then show thesis using that [OF network(3)] reverse_proxy_forward [OF network(4)] by simp
  qed (use assms(2) network_not_others streaming_no_forward in simp_all)
qed

text \<open>A rewritten request goes out with exactly the new body and one framing, its length.\<close>

definition framed_body :: "request \<Rightarrow> gostring \<Rightarrow> bool" where
  "framed_body out body \<longleftrightarrow>
     req_body out = Some \<lparr>body_bytes = body, body_err = None\<rparr> \<and> req_length out = int (length body)
     \<and> req_te out = [] \<and> map_of (req_header out) ''Transfer-Encoding'' = None"

lemma framed_rewrite:
  "newBody \<noteq> [] \<Longrightarrow> framed_body (outgoing rp_director remote (rewriteRequestBody r newBody)) newBody"
  by (simp add: framed_body_def outgoing_no_te)

lemma checked_network_safe:
  assumes "CheckNetworkCreate body user = Inr out" "valid_utf8 user"
  shows "\<exists>m. unmarshal_map out = Some (Some m) \<and> network_ok user m \<and> owner_of m = Some user"
proof -
  from network_body.forwarded_body [OF assms(1) [unfolded CheckNetworkCreate_def] assms(2)]
  obtain m raw where um: "unmarshal_map body = Some (Some m)"
    and c: "check_network_raw user (Some m) = Inr raw"
    and wf: "wf_fields m" "wf_fields raw"
    and out: "unmarshal_map out = Some (Some (norm_fields raw))" .
  have "network_ok user m" "raw = labelled user m"
    using c by (simp_all add: check_network_raw_Inr)
  then have "network_ok user (norm_fields raw) \<and> owner_of (norm_fields raw) = Some user"
    using wf by (simp add: network_ok_norm owner_of_norm)
  then show ?thesis using out by blast
qed

lemma checked_ne: "with_json_body check user body = Inr out \<Longrightarrow> out \<noteq> []"
  by (auto simp: with_json_body_def res_bind_Inr in_brackets_def split: if_splits option.splits)

text \<open>The container list that reaches the client.\<close>

lemma reply_modified:
  assumes "EReply res \<in> set (reverse_proxy h w r)"
  obtains resp where "modifyResponse (User h) (Some (outgoing rp_director (w_remote w) r)) resp = Inr res"
proof -
  have "EReply res \<notin> set (rp_error_handler r' err)" for r' err
    using quiet_in [OF quiet_simps(1), of "EReply res"] by auto
  then show thesis
    using assms that by (auto simp: reverse_proxy_def Let_def split: if_splits sum.splits)
qed

lemma filtered_items:
  assumes "unmarshal_maps (FilterContainerList body user) = Some items"
  shows "list_all (\<lambda>item. owner_of (entries item) = Some user) items"
proof (cases "unmarshal_maps body")
  case None
  then show ?thesis using assms by (simp add: filter_kept)
next
  case (Some arr)
  then show ?thesis
    using assms kept_owner [OF Some] filter_decodes [OF Some, of user]
    by (auto simp: list_all_iff entries_def)
qed

section \<open>Exactly one conclusion\<close>

fun concludes :: "event \<Rightarrow> bool" where
  "concludes (ERespond _) = True"
| "concludes (EReply _) = True"
| "concludes (EUpgrade _) = True"
| "concludes ERelay = True"
| "concludes ECloseClient = True"
| "concludes (EPanic _) = True"
| "concludes _ = False"

text \<open>One conclusion, or none when the handler asked for the connection and did not get it.\<close>

definition one_conclusion :: "world \<Rightarrow> event list \<Rightarrow> bool" where
  "one_conclusion w es \<longleftrightarrow>
     length (filter concludes es) = (if EHijack \<in> set es \<and> \<not> w_hijack_ok w then 0 else 1)"

lemma one_conclusion_Cons [simp]:
  "\<not> concludes e \<Longrightarrow> e \<noteq> EHijack \<Longrightarrow> one_conclusion w (e # es) = one_conclusion w es"
  by (simp add: one_conclusion_def)

lemma one_conclusion_subs [simp]: "one_conclusion w (map ESub subs @ es) = one_conclusion w es"
  by (induction subs) (simp_all add: one_conclusion_def)

lemma one_conclusion_parts [simp]:
  "one_conclusion w (rp_error_handler r err)" "one_conclusion w (refuse g)" "one_conclusion w (body_error b)"
  "one_conclusion w [ERespond x]" "one_conclusion w [EReply y]" "one_conclusion w [EUpgrade y]"
  by (simp_all add: one_conclusion_def rp_error_handler_def refuse_def body_error_def
      split: go_error.split read_error.split)

lemma one_conclusion_proxy [simp]: "one_conclusion w (reverse_proxy h w' r)"
  by (simp add: reverse_proxy_def Let_def split: sum.split)

lemma one_conclusion_streaming [simp]: "one_conclusion w (handleStreaming h w r)"
  by (simp add: handleStreaming_def one_conclusion_def)

section \<open>Bounded reads\<close>

lemma read_all_limited_take:
  "read_all_limited chunk k limit left err got =
     (if limit \<le> length left then (Inr (got @ take limit left), drop limit left)
      else case err of None \<Rightarrow> (Inr (got @ left), []) | Some e \<Rightarrow> (Inl e, []))"
proof (induction chunk k limit left err got rule: read_all_limited.induct)
  case (1 chunk k limit left err got)
  show ?case
  proof (cases "limit = 0 \<or> left = []")
    case True
    then show ?thesis by (auto simp: read_all_limited.simps [of chunk k] split: option.split)
  next
    case False
    define n where "n = min (min limit (chunk k + 1)) (length left)"
    then have n: "n \<le> limit" "n \<le> length left" by simp_all
    have step: "read_all_limited chunk k limit left err got
        = read_all_limited chunk (k + 1) (limit - n) (drop n left) err (got @ take n left)"
      using False by (subst read_all_limited.simps) (simp add: n_def Let_def)
    have ih: "read_all_limited chunk (k + 1) (limit - n) (drop n left) err (got @ take n left) =
       (if limit - n \<le> length (drop n left)
        then (Inr ((got @ take n left) @ take (limit - n) (drop n left)), drop (limit - n) (drop n left))
        else case err of None \<Rightarrow> (Inr ((got @ take n left) @ drop n left), []) | Some e \<Rightarrow> (Inl e, []))"
      using False by (intro 1) (simp_all add: n_def)
    have "limit - n \<le> length (drop n left) \<longleftrightarrow> limit \<le> length left" using n by auto
    moreover have "take limit left = take n left @ take (limit - n) (drop n left)"
      using n by (metis take_add le_add_diff_inverse)
    moreover have "drop (limit - n) (drop n left) = drop limit left" using n by simp
    ultimately show ?thesis unfolding step ih by (simp only: append_assoc append_take_drop_id)
  qed
qed

section \<open>The proxy's own responses\<close>

definition error_response :: "http_response \<Rightarrow> bool" where
  "error_response resp \<longleftrightarrow> (\<exists>status msg. resp = writeJSONError status msg \<and> status \<in> {400, 403, 404, 413, 500, 502})"

lemma error_responseI [intro]: "status \<in> {400, 403, 404, 413, 500, 502} \<Longrightarrow> error_response (writeJSONError status msg)"
  unfolding error_response_def by blast

text \<open>Every response among the events is an error response.\<close>

definition responds_errors :: "event list \<Rightarrow> bool" where
  "responds_errors es \<longleftrightarrow> list_all (\<lambda>e. case e of ERespond resp \<Rightarrow> error_response resp | _ \<Rightarrow> True) es"

lemma responds_errors_simps [simp]:
  "responds_errors []"
  "responds_errors (e # es) \<longleftrightarrow> (case e of ERespond resp \<Rightarrow> error_response resp | _ \<Rightarrow> True) \<and> responds_errors es"
  "responds_errors (es @ es') \<longleftrightarrow> responds_errors es \<and> responds_errors es'"
  "responds_errors (map ESub subs)"
  by (auto simp: responds_errors_def list_all_iff)

lemma responds_errors_parts:
  "responds_errors (rp_error_handler r err)" "responds_errors (body_error b)" "responds_errors (handleStreaming h w r)"
  by (auto simp: rp_error_handler_def body_error_def handleStreaming_def split: read_error.split)

lemma responds_errors_proxy: "responds_errors (reverse_proxy h w r)"
  by (simp add: reverse_proxy_def Let_def responds_errors_parts split: sum.split)

lemma responds_errors_refuse:
  "(\<And>status msg. e = CreateError status msg \<Longrightarrow> status \<in> {400, 403, 404, 413}) \<Longrightarrow> responds_errors (refuse e)"
  by (cases e) (auto simp: refuse_def)

lemma CheckCreate_status: "CheckCreate cfg fs body user = Inl (CreateError status msg) \<Longrightarrow> status \<in> {400, 403, 413}"
  unfolding CheckCreate_def by (erule create_body.body_status) (simp add: check_create_raw_nil)

lemma CheckNetworkCreate_status: "CheckNetworkCreate body user = Inl (CreateError status msg) \<Longrightarrow> status \<in> {400, 403, 413}"
  unfolding CheckNetworkCreate_def by (erule network_body.body_status) (auto dest: check_network_raw_Inl)

lemma maybeCheckOwnership_status:
  "snd (maybeCheckOwnership h w r) = Some (CreateError status msg) \<Longrightarrow> status \<in> {403, 404}"
  using container_check.check_error exec_check.check_error
  by (fastforce simp: maybeCheckOwnership_def Let_def split: if_splits option.splits prod.splits)

lemma ServeHTTP_responds_errors: "responds_errors (ServeHTTP h w r)"
proof -
  have "responds_errors (handleContainerCreate h w r)" "responds_errors (handleNetworkCreate h w r)"
    unfolding handleContainerCreate_def handleNetworkCreate_def
    by (auto simp: responds_errors_parts responds_errors_proxy split: sum.split
        intro!: responds_errors_refuse dest: CheckCreate_status CheckNetworkCreate_status)
  moreover have "responds_errors (refuse e)" if "maybeCheckOwnership h w r = (subs, Some e)" for subs e
    using that maybeCheckOwnership_status [of h w r] by (intro responds_errors_refuse) auto
  ultimately show ?thesis
    unfolding ServeHTTP_def Let_def handleLargeBody_def
    by (auto simp: responds_errors_parts responds_errors_proxy split: option.split prod.split)
qed

end
