(* ===== verification/Samples.thy ===== *)
theory Samples
  imports Mediation
begin

text \<open>
  Concrete requests and a concrete world, on which the witnesses evaluate the handler, and the
  lemmas that tell from a request's route which events its handling produces.
\<close>

section \<open>A world and its requests\<close>

definition sample_request :: "gostring \<Rightarrow> gostring \<Rightarrow> gostring \<Rightarrow> request" where
  "sample_request meth target body =
     \<lparr>req_method = meth,
       req_url = (case parse_origin_form target of
          Some u \<Rightarrow> u
        | None \<Rightarrow> \<lparr>url_scheme = [], url_opaque = [], url_host = [], url_path = [], url_raw_path = [],
                   url_force_query = False, url_raw_query = []\<rparr>),
       req_te = [], req_host = ''docker'', req_header = [(''Content-Type'', [''application/json''])],
       req_body = Some \<lparr>body_bytes = body, body_err = None\<rparr>, req_length = int (length body)\<rparr>"

lemma sample_plain:
  assumes "plain_target t"
  shows "url_path (req_url (sample_request m t b)) = t" "request_uri (req_url (sample_request m t b)) = t"
  using parse_plain_target [OF assms] by (simp_all add: sample_request_def plain_url_def)

lemma sample_fields:
  "req_method (sample_request m t b) = m" "req_te (sample_request m t b) = []"
  by (simp_all add: sample_request_def)

definition ok_response :: "gostring \<Rightarrow> response" where
  "ok_response body =
     \<lparr>res_status = 200, res_header = [(''Content-Type'', [''application/json''])],
       res_body = \<lparr>body_bytes = body, body_err = None\<rparr>, res_length = int (length body)\<rparr>"

definition sample_world :: "gostring \<Rightarrow> world" where
  "sample_world body =
     \<lparr>w_paths = default_paths, w_fs = link_fs, w_answers = (\<lambda>n req. Response 200 body True),
       w_round_trip = (\<lambda>out. Inr (ok_response body)), w_remote = None, w_hijacker = True,
       w_dial_ok = True, w_hijack_ok = True, w_write_ok = True, w_buffered = [], w_flush_ok = True\<rparr>"

abbreviation alice :: handler where
  "alice \<equiv> NewHandler ''alice'' ''/var/run/docker.sock''"

definition alices :: gostring where
  "alices = quotes ''{`ContainerID`:`c1`,`Config`:{`Labels`:{`dev.boris.isolator.user`:`alice`}}}''"

section \<open>What a route produces\<close>

lemma reverse_proxy_sends:
  "printable (upgrade_type (req_header r)) \<Longrightarrow>
     EForward (outgoing rp_director (w_remote w) r) \<in> set (reverse_proxy h w r)"
  by (simp add: reverse_proxy_def Let_def)

lemma reverse_proxy_replies:
  assumes "printable (upgrade_type (req_header r))"
    and "w_round_trip w (outgoing rp_director (w_remote w) r) = Inr resp" "res_status resp \<noteq> 101"
    and "modifyResponse (User h) (Some (outgoing rp_director (w_remote w) r))
           (resp\<lparr>res_header := remove_hop_by_hop (res_header resp)\<rparr>) = Inr resp2"
  shows "EReply resp2 \<in> set (reverse_proxy h w r)"
  using assms by (simp add: reverse_proxy_def Let_def)

lemma serves_proxy:
  assumes "find (\<lambda>te. te \<noteq> ''chunked'') (req_te r) = None"
    and "is_endpoint_allowed (req_method r) (request_uri (req_url r)) (User h)"
    and "\<not> isLargeBodyPath (req_method r) (url_path (req_url r))"
    and "\<not> isContainerCreatePath (req_method r) (url_path (req_url r))"
    and "\<not> isNetworkCreatePath (req_method r) (url_path (req_url r))"
    and "maybeCheckOwnership h w r = ([], None)" "\<not> isStreamingPath (url_path (req_url r))"
  shows "ServeHTTP h w r = reverse_proxy h w r"
  using assms by (simp add: ServeHTTP_def Let_def)

lemma sample_header [simp]: "printable (upgrade_type (req_header (sample_request m t b)))"
proof -
  have "printable (upgrade_type [(''Content-Type'', [''application/json''])])" by code_simp
  then show ?thesis by (simp only: sample_request_def request.select_convs)
qed

lemma no_container_check:
  assumes "\<not> re_match reExecAction (url_path (req_url r))"
    and "acts_on_container (url_path (req_url r)) \<Longrightarrow> ExtractContainerTarget (url_path (req_url r)) = None"
  shows "maybeCheckOwnership h w r = ([], None)"
  using assms by (auto simp: maybeCheckOwnership_def acts_on_container_def Let_def)

lemma info_forwarded: "EForward (outgoing rp_director None (sample_request ''GET'' ''/v1.41/info'' [])) \<in>
   set (ServeHTTP alice (sample_world []) (sample_request ''GET'' ''/v1.41/info'' []))"
proof -
  let ?r = "sample_request ''GET'' ''/v1.41/info'' []"
  have p: "plain_target ''/v1.41/info''" by code_simp
  have "ServeHTTP alice (sample_world []) ?r = reverse_proxy alice (sample_world []) ?r"
    by (rule serves_proxy; (rule no_container_check)?) (unfold sample_plain [OF p] sample_fields, code_simp+)
  moreover have "w_remote (sample_world []) = None" by (simp add: sample_world_def)
  ultimately show ?thesis using reverse_proxy_sends [of ?r "sample_world []" alice] by simp
qed

lemma serves_relay:
  assumes "find (\<lambda>te. te \<noteq> ''chunked'') (req_te r) = None"
    and "is_endpoint_allowed (req_method r) (request_uri (req_url r)) (User h)"
    and "\<not> isLargeBodyPath (req_method r) (url_path (req_url r))"
    and "\<not> isContainerCreatePath (req_method r) (url_path (req_url r))"
    and "\<not> isNetworkCreatePath (req_method r) (url_path (req_url r))"
    and "snd (maybeCheckOwnership h w r) = None" "isStreamingPath (url_path (req_url r))"
    and "w_hijacker w" "w_dial_ok w" "w_hijack_ok w" "w_write_ok w" "w_buffered w = []"
  shows "ERelay \<in> set (ServeHTTP h w r)"
proof -
  obtain subs where "maybeCheckOwnership h w r = (subs, None)"
    using assms(6) by (cases "maybeCheckOwnership h w r") auto
  then show ?thesis using assms by (simp add: ServeHTTP_def Let_def handleStreaming_def)
qed

lemma alices_decoded: "unmarshal_map alices = Some (Some [(''ContainerID'', JStr ''c1''),
    (''Config'', JObj [(''Labels'', JObj [(owner_label, JStr ''alice'')])])])"
  by code_simp

lemma sample_answers: "w_answers (sample_world body) n req = Response 200 body True"
  by (simp add: sample_world_def)

lemma alices_container: "snd (CheckContainerOwned (w_answers (sample_world alices)) n ''alice'' ver cid) = None"
  by (simp add: CheckContainerOwned_def Let_def subrequest_def sample_answers alices_decoded entries_def
      extractOwnerLabel_def label_in_def field_or_nil_def)

lemma alices_exec: "snd (CheckExecOwned (w_answers (sample_world alices)) ''alice'' ver eid) = None"
  by (simp add: CheckExecOwned_def Let_def subrequest_def sample_answers alices_decoded entries_def
      field_or_nil_def str_or_empty_def alices_container split: prod.split) (metis alices_container snd_conv)

lemma sample_relay:
  assumes "find (\<lambda>te. te \<noteq> ''chunked'') (req_te r) = None"
    and "is_endpoint_allowed (req_method r) (request_uri (req_url r)) ''alice''"
    and "\<not> isLargeBodyPath (req_method r) (url_path (req_url r))"
    and "\<not> isContainerCreatePath (req_method r) (url_path (req_url r))"
    and "\<not> isNetworkCreatePath (req_method r) (url_path (req_url r))"
    and "isStreamingPath (url_path (req_url r))"
  shows "ERelay \<in> set (ServeHTTP alice (sample_world alices) r)"
proof -
  have "snd (maybeCheckOwnership alice (sample_world alices) r) = None"
    by (auto simp: maybeCheckOwnership_def Let_def NewHandler_def alices_container alices_exec
        split: option.split prod.split)
  then show ?thesis
    using assms by (intro serves_relay) (simp_all add: NewHandler_def sample_world_def)
qed

lemma serves_large:
  assumes "find (\<lambda>te. te \<noteq> ''chunked'') (req_te r) = None"
    and "is_endpoint_allowed (req_method r) (request_uri (req_url r)) (User h)"
    and "isLargeBodyPath (req_method r) (url_path (req_url r))"
  shows "ServeHTTP h w r = reverse_proxy h w r"
  using assms by (simp add: ServeHTTP_def Let_def handleLargeBody_def)

lemma serves_create:
  assumes "find (\<lambda>te. te \<noteq> ''chunked'') (req_te r) = None"
    and "is_endpoint_allowed (req_method r) (request_uri (req_url r)) (User h)"
    and "\<not> isLargeBodyPath (req_method r) (url_path (req_url r))"
    and "isContainerCreatePath (req_method r) (url_path (req_url r))"
    and "readBoundedBody (request_body r) max_body_size = Inr body"
    and "CheckCreate (w_paths w) (w_fs w) body (User h) = Inr newBody"
  shows "ServeHTTP h w r = reverse_proxy h w (rewriteRequestBody r newBody)"
  using assms by (simp add: ServeHTTP_def Let_def handleContainerCreate_def)

lemma serves_network:
  assumes "find (\<lambda>te. te \<noteq> ''chunked'') (req_te r) = None"
    and "is_endpoint_allowed (req_method r) (request_uri (req_url r)) (User h)"
    and "\<not> isLargeBodyPath (req_method r) (url_path (req_url r))"
    and "\<not> isContainerCreatePath (req_method r) (url_path (req_url r))"
    and "isNetworkCreatePath (req_method r) (url_path (req_url r))"
    and "readBoundedBody (request_body r) max_body_size = Inr body"
    and "CheckNetworkCreate body (User h) = Inr newBody"
  shows "ServeHTTP h w r = reverse_proxy h w (rewriteRequestBody r newBody)"
  using assms by (simp add: ServeHTTP_def Let_def handleNetworkCreate_def)

lemma sample_header_rewritten [simp]:
  "printable (upgrade_type (req_header (rewriteRequestBody (sample_request m t b) body)))"
proof -
  have "upgrade_type (req_header (rewriteRequestBody (sample_request m t b) body)) = []"
    by (simp add: upgrade_type_def rewriteRequestBody_def sample_request_def header_values_def
        contains_token_def)
  then show ?thesis by (simp add: printable_def)
qed

abbreviation create_request :: request where
  "create_request \<equiv> sample_request ''POST'' ''/v1.41/containers/create'' ''{}''"

abbreviation network_request :: request where
  "network_request \<equiv> sample_request ''POST'' ''/v1.41/networks/create'' (quotes ''{`Name`:`iso-alice`}'')"

abbreviation list_request :: request where
  "list_request \<equiv> sample_request ''GET'' ''/v1.41/containers/json'' []"

abbreviation attach_request :: request where
  "attach_request \<equiv> sample_request ''POST'' ''/v1.41/containers/web/attach'' []"

lemma sample_attach_target: "plain_target ''/v1.41/containers/web/attach''"
  by code_simp

lemma attach_relayed: "ERelay \<in> set (ServeHTTP alice (sample_world alices) attach_request)"
  by (rule sample_relay) (unfold sample_plain [OF sample_attach_target] sample_fields, code_simp+)

lemma attach_path: "wire_path (req_url attach_request) = ''/v1.41/containers/web/attach''"
  unfolding wire_path_def sample_plain [OF sample_attach_target] by code_simp

lemma attach_names: "names_container (wire_path (req_url attach_request)) ''v1.41'' ''web''"
proof -
  have "is_version ''1.41''" "is_name ''web''" by code_simp+
  then show ?thesis unfolding names_container_def attach_path
    by (intro exI [of _ "''1.41''"] exI [of _ "''/attach''"]) (simp add: ends_segment_def)
qed

lemma attach_acts: "server_url (req_url attach_request) \<and> acts_on_container (wire_path (req_url attach_request))
    \<and> newline \<notin> set (url_path (req_url attach_request))"
  by code_simp

abbreviation exec_request :: request where
  "exec_request \<equiv> sample_request ''POST'' ''/v1.41/exec/e1/start'' []"

lemma sample_exec_target: "plain_target ''/v1.41/exec/e1/start''"
  by code_simp

lemma exec_relayed: "ERelay \<in> set (ServeHTTP alice (sample_world alices) exec_request)"
  by (rule sample_relay) (unfold sample_plain [OF sample_exec_target] sample_fields, code_simp+)

lemma exec_path: "wire_path (req_url exec_request) = ''/v1.41/exec/e1/start''"
  unfolding wire_path_def sample_plain [OF sample_exec_target] by code_simp

abbreviation build_request :: request where
  "build_request \<equiv> sample_request ''POST'' ''/v1.41/build'' ''tar''"

end
