(* ===== verification/HandlerProps.thy ===== *)
theory HandlerProps
  imports Samples
begin

text \<open>
  The properties of the request handler: complete mediation of everything that reaches the
  daemon, ownership before forwarding, safe bodies, an isolated container list, one response
  per request, and the two paths that escape the ownership check.
\<close>

text \<open>C4. Complete mediation, forwarding.  A request that the reverse proxy hands to the daemon has
  the method of the client's request and a request URI that is byte for byte the one the allowlist
  accepted for the user: nothing that was not allowed is forwarded, and what is checked is what is
  sent.\<close>

theorem forwarded_allowed:
  assumes "EForward out \<in> set (ServeHTTP h w r)" "server_url (req_url r)"
  shows "req_method out = req_method r \<and> request_uri (req_url out) = request_uri (req_url r)
    \<and> is_endpoint_allowed (req_method out) (request_uri (req_url out)) (User h)"
proof -
  have ok: "is_endpoint_allowed (req_method r) (request_uri (req_url r)) (User h)"
    by (rule sent_allowed(2) [OF assms(1)]) simp
  from forward_from [OF assms(1)] obtain r' where r': "out = outgoing rp_director (w_remote w) r'"
    "req_method r' = req_method r" "req_url r' = req_url r" .
  have "request_uri (req_url out) = request_uri (req_url r)"
    unfolding r'(1) using outgoing_uri [of r'] allowed_target(1) [OF ok assms(2)] r'(3) by simp
  then show ?thesis using ok r' by simp
qed

theorem forwarded_allowed_witness:
  "is_endpoint_allowed ''GET'' ''/v1.41/info'' ''alice''"
proof -
  let ?r = "sample_request ''GET'' ''/v1.41/info'' []"
  have "server_url (req_url ?r)" by code_simp
  from forwarded_allowed [OF info_forwarded this] have
    "is_endpoint_allowed (req_method ?r) (request_uri (req_url ?r)) ''alice''"
    by (auto simp: NewHandler_def)
  moreover have "plain_target ''/v1.41/info''" by code_simp
  from sample_plain(2) [OF this] have "request_uri (req_url ?r) = ''/v1.41/info''" "req_method ?r = ''GET''"
    by (simp_all add: sample_fields)
  ultimately show ?thesis by simp
qed

text \<open>C21. Complete mediation, streaming.  The proxy goes into relay mode only for a request that
  the allowlist accepted, and what happens up to there is fixed: the ownership inspections, the dial of
  the daemon, the hijack of the client, then that request's method and URI as the first bytes on the new
  connection, the bytes already buffered if there are any, and the relay last.\<close>

theorem relayed_allowed:
  assumes "ERelay \<in> set (ServeHTTP h w r)"
  shows "is_endpoint_allowed (req_method r) (request_uri (req_url r)) (User h)
    \<and> (\<exists>rest. ServeHTTP h w r = map ESub (fst (maybeCheckOwnership h w r))
         @ [EDial (UpstreamSocket h), EHijack,
            EWrite (req_method r @ '' '' @ request_uri (req_url r) @ '' HTTP/1.1'' @ crlf @ rest)]
         @ (if w_buffered w = [] then [] else [EWrite (w_buffered w)]) @ [ERelay])"
proof -
  have "is_endpoint_allowed (req_method r) (request_uri (req_url r)) (User h)"
    by (rule sent_allowed(2) [OF assms]) simp
  moreover obtain rest where
    "writeRequestLine r = req_method r @ '' '' @ request_uri (req_url r) @ '' HTTP/1.1'' @ crlf @ rest"
    using request_uri_ne [of "req_url r"] by (simp add: writeRequestLine_def Let_def)
  ultimately show ?thesis unfolding relay_events [OF assms] by metis
qed

theorem relayed_allowed_witness:
  "is_endpoint_allowed ''POST'' ''/v1.41/containers/web/attach'' ''alice''
   \<and> last (ServeHTTP alice (sample_world alices) attach_request) = ERelay"
proof -
  from relayed_allowed [OF attach_relayed]
  have "is_endpoint_allowed (req_method attach_request) (request_uri (req_url attach_request)) (User alice)
      \<and> last (ServeHTTP alice (sample_world alices) attach_request) = ERelay" by auto
  then show ?thesis
    by (simp add: sample_plain [OF sample_attach_target] sample_fields NewHandler_def)
qed

text \<open>C2. Ownership before anything is sent, with two exemptions.  Let the handler have a non-empty user, and
  let the path that the daemon will read act on a container (an action or a deletion) that is not named
  \<open>json\<close> or \<open>create\<close>, the decoded path being free of line feeds.  Then nothing of the request
  reaches the daemon, neither by forwarding nor by relay, unless an inspection of that very container
  under that API version, answered before, states the proxy's user as its owner.  The exemptions are
  the code's: it checks none of these requests (\<open>reserved_names_unchecked\<close>, \<open>newline_unchecked\<close>).\<close>

theorem container_ownership:
  assumes "e \<in> set (ServeHTTP h w r)" "sends e" "server_url (req_url r)" "User h \<noteq> []"
    and "acts_on_container (wire_path (req_url r))" "names_container (wire_path (req_url r)) ver n"
    and "n \<noteq> ''json''" "n \<noteq> ''create''" "newline \<notin> set (url_path (req_url r))"
  shows "owned_by (w_answers w) 0 ver n (User h)"
  by (rule sends_owned_container [OF assms])

theorem container_ownership_witness:
  "owned_by (w_answers (sample_world alices)) 0 ''v1.41'' ''web'' ''alice''"
proof -
  have "User alice \<noteq> []" "(''web'' :: gostring) \<noteq> ''json''" "(''web'' :: gostring) \<noteq> ''create''"
    by (simp_all add: NewHandler_def)
  moreover have "sends ERelay" by simp
  ultimately show ?thesis
    using container_ownership [OF attach_relayed _ _ _ _ attach_names] attach_acts by (simp add: NewHandler_def)
qed

text \<open>C7. The same for exec instances, without exemption: the daemon named the container of the
  instance in a first subrequest and stated the user as the owner of that container in a second.\<close>

theorem exec_ownership:
  assumes "e \<in> set (ServeHTTP h w r)" "sends e" "server_url (req_url r)" "User h \<noteq> []"
    and "re_match reExecAction (wire_path (req_url r))" "names_exec (wire_path (req_url r)) ver n"
  shows "\<exists>cid. says_container (w_answers w) ver n cid \<and> owned_by (w_answers w) 1 ver cid (User h)"
  by (rule sends_owned_exec [OF assms])

theorem exec_ownership_witness:
  "\<exists>cid. says_container (w_answers (sample_world alices)) ''v1.41'' ''e1'' cid
     \<and> owned_by (w_answers (sample_world alices)) 1 ''v1.41'' cid ''alice''"
proof -
  have name: "names_exec (wire_path (req_url exec_request)) ''v1.41'' ''e1''"
  proof -
    have "is_version ''1.41''" "is_name ''e1''" by code_simp+
    then show ?thesis unfolding names_exec_def exec_path
      by (intro exI [of _ "''1.41''"] exI [of _ "''/start''"]) (simp add: ends_segment_def)
  qed
  have sends: "sends ERelay" by simp
  have "server_url (req_url exec_request)" "User alice \<noteq> []"
    "re_match reExecAction (wire_path (req_url exec_request))" by code_simp+
  from exec_ownership [OF exec_relayed sends this name] show ?thesis by (simp add: NewHandler_def)
qed

text \<open>C3. Every container-create request that reaches the daemon by forwarding carries a checked body, for a
  user name and link targets in valid UTF-8: it decodes to an object that satisfies the policy and has
  the user's owner label, and it is framed by the length of that body alone.  The source of every
  bind and mount is a resolved path inside the user's roots and not the Docker socket, or what stands
  before a colon in such a path; in a file tree where no link target contains a colon it is such a
  path as a whole.\<close>

theorem forwarded_create_safe:
  assumes "EForward out \<in> set (ServeHTTP h w r)" "server_url (req_url r)"
    and "req_method out = ''POST''" "re_match reContainersCreate (wire_path (req_url out))"
    and "valid_utf8 (User h)" "links_valid (w_fs w)"
  shows "\<exists>body m. framed_body out body \<and> unmarshal_map body = Some (Some m)
    \<and> create_ok (cut_source (final_source (resolve_path (w_fs w)) (is_path_allowed (w_paths w) (w_fs w)) (User h)))
        (User h) m
    \<and> (if links_free CHR '':'' (w_fs w)
       then create_ok (final_source (resolve_path (w_fs w)) (is_path_allowed (w_paths w) (w_fs w)) (User h)) (User h) m
       else True)
    \<and> owner_of m = Some (User h)"
proof -
  note ok = sent_allowed(2) [OF assms(1) reaches_forward]
  from forward_from [OF assms(1)] obtain r' where r': "out = outgoing rp_director (w_remote w) r'"
    "req_method r' = req_method r" "req_url r' = req_url r" .
  have "wire_path (req_url out) = wire_path (req_url r)"
    unfolding r'(1) wire_path_def using outgoing_uri [of r'] allowed_target(1) [OF ok assms(2)] r'(3) by simp
  then have "isContainerCreatePath (req_method r) (url_path (req_url r))"
    using create_route_decoded(1) [OF ok assms(2)] assms(3,4) r' by simp
  from forwarded_create [OF assms(1) this] obtain newBody where
    c: "CheckCreate (w_paths w) (w_fs w) (body_bytes (request_body r)) (User h) = Inr newBody"
    and out: "out = outgoing rp_director (w_remote w) (rewriteRequestBody r newBody)" .
  have "framed_body out newBody"
    unfolding out by (rule framed_rewrite [OF checked_ne [OF c [unfolded CheckCreate_def]]])
  then show ?thesis using checked_create_safe [OF c assms(5,6)] by blast
qed

theorem forwarded_create_safe_witness:
  "\<exists>out body m. EForward out \<in> set (ServeHTTP alice (sample_world []) create_request)
     \<and> framed_body out body \<and> unmarshal_map body = Some (Some m) \<and> owner_of m = Some ''alice''"
proof -
  let ?w = "sample_world []" and ?new = "quotes ''{`Labels`:{`dev.boris.isolator.user`:`alice`}}''"
  let ?out = "outgoing rp_director None (rewriteRequestBody create_request ?new)"
  have c: "CheckCreate default_paths link_fs ''{}'' ''alice'' = Inr ?new" by code_simp
  have b: "readBoundedBody (request_body create_request) max_body_size = Inr ''{}''" by code_simp
  have p: "plain_target ''/v1.41/containers/create''" by code_simp
  have s: "ServeHTTP alice ?w create_request = reverse_proxy alice ?w (rewriteRequestBody create_request ?new)"
    by (rule serves_create [where body = "''{}''"], unfold sample_plain [OF p] sample_fields,
        code_simp, code_simp, code_simp, code_simp, rule b)
      (simp add: sample_world_def NewHandler_def c)
  have w: "w_remote ?w = None" "w_fs ?w = link_fs" by (simp_all add: sample_world_def)
  have f: "EForward ?out \<in> set (ServeHTTP alice ?w create_request)"
    unfolding s using reverse_proxy_sends [of "rewriteRequestBody create_request ?new" ?w alice] w(1) by simp
  have url: "server_url (req_url create_request)" by code_simp
  have post: "req_method ?out = ''POST''" by (simp add: sample_request_def)
  have "wire_path (req_url ?out) = ''/v1.41/containers/create''" by code_simp
  moreover have "re_match reContainersCreate ''/v1.41/containers/create''" by code_simp
  ultimately have path: "re_match reContainersCreate (wire_path (req_url ?out))" by simp
  have fs: "valid_utf8 (User alice)" "links_valid (w_fs ?w)"
    unfolding w by (auto simp: NewHandler_def links_valid_def link_fs_def split: if_splits)
  from forwarded_create_safe [OF f url post path fs] f show ?thesis by (auto simp: NewHandler_def)
qed

text \<open>C22. Every network-create request that reaches the daemon names a network of the user, uses
  the bridge driver or none, carries the owner label and is framed by its length alone.\<close>

theorem forwarded_network_safe:
  assumes "EForward out \<in> set (ServeHTTP h w r)" "server_url (req_url r)"
    and "req_method out = ''POST''" "re_match reNetworksCreate (wire_path (req_url out))"
    and "valid_utf8 (User h)"
  shows "\<exists>body m. framed_body out body \<and> unmarshal_map body = Some (Some m)
    \<and> network_ok (User h) m \<and> owner_of m = Some (User h)"
proof -
  note ok = sent_allowed(2) [OF assms(1) reaches_forward]
  from forward_from [OF assms(1)] obtain r' where r': "out = outgoing rp_director (w_remote w) r'"
    "req_method r' = req_method r" "req_url r' = req_url r" .
  have "wire_path (req_url out) = wire_path (req_url r)"
    unfolding r'(1) wire_path_def using outgoing_uri [of r'] allowed_target(1) [OF ok assms(2)] r'(3) by simp
  then have "isNetworkCreatePath (req_method r) (url_path (req_url r))"
    using create_route_decoded(2) [OF ok assms(2)] assms(3,4) r' by simp
  from forwarded_network [OF assms(1) this] obtain newBody where
    c: "CheckNetworkCreate (body_bytes (request_body r)) (User h) = Inr newBody"
    and out: "out = outgoing rp_director (w_remote w) (rewriteRequestBody r newBody)" .
  have "framed_body out newBody"
    unfolding out by (rule framed_rewrite [OF checked_ne [OF c [unfolded CheckNetworkCreate_def]]])
  then show ?thesis using checked_network_safe [OF c assms(5)] by blast
qed

theorem forwarded_network_safe_witness:
  "\<exists>out body m. EForward out \<in> set (ServeHTTP alice (sample_world []) network_request)
     \<and> framed_body out body \<and> unmarshal_map body = Some (Some m) \<and> network_ok ''alice'' m"
proof -
  let ?w = "sample_world []" and ?old = "quotes ''{`Name`:`iso-alice`}''"
  let ?new = "quotes ''{`Labels`:{`dev.boris.isolator.user`:`alice`},`Name`:`iso-alice`}''"
  let ?out = "outgoing rp_director None (rewriteRequestBody network_request ?new)"
  have c: "CheckNetworkCreate ?old ''alice'' = Inr ?new" by code_simp
  have b: "readBoundedBody (request_body network_request) max_body_size = Inr ?old" by code_simp
  have p: "plain_target ''/v1.41/networks/create''" by code_simp
  have s: "ServeHTTP alice ?w network_request = reverse_proxy alice ?w (rewriteRequestBody network_request ?new)"
    by (rule serves_network [where body = ?old], unfold sample_plain [OF p] sample_fields,
        code_simp, code_simp, code_simp, code_simp, code_simp, rule b)
      (simp add: NewHandler_def c)
  have w: "w_remote ?w = None" by (simp add: sample_world_def)
  have f: "EForward ?out \<in> set (ServeHTTP alice ?w network_request)"
    unfolding s using reverse_proxy_sends [of "rewriteRequestBody network_request ?new" ?w alice] w by simp
  have url: "server_url (req_url network_request)" by code_simp
  have post: "req_method ?out = ''POST''" by (simp add: sample_request_def)
  have "wire_path (req_url ?out) = ''/v1.41/networks/create''" by code_simp
  moreover have "re_match reNetworksCreate ''/v1.41/networks/create''" by code_simp
  ultimately have path: "re_match reNetworksCreate (wire_path (req_url ?out))" by simp
  have user: "valid_utf8 (User alice)" by (simp add: NewHandler_def)
  from forwarded_network_safe [OF f url post path user] f show ?thesis by (auto simp: NewHandler_def)
qed

text \<open>C8. The container list that reaches the client holds only containers that carry the user's
  label, whatever the daemon answered.\<close>

theorem list_isolated:
  assumes "EReply res \<in> set (ServeHTTP h w r)" "server_url (req_url r)"
    and "req_method r = ''GET''" "re_match reContainersList (wire_path (req_url r))"
    and "res_status res = 200" "unmarshal_maps (body_bytes (res_body res)) = Some items"
  shows "list_all (\<lambda>item. owner_of (entries item) = Some (User h)) items"
proof -
  have "re_match reContainersList (url_path (req_url r))"
    by (rule list_route_decoded [OF sent_allowed(2) [OF assms(1) reaches_reply] assms(2,4)])
  moreover have "\<not> isContainerCreatePath (req_method r) p" "\<not> isNetworkCreatePath (req_method r) p" for p
    using assms(3) by (simp_all add: isContainerCreatePath_def isNetworkCreatePath_def)
  with assms(1) reaches_reply have "EReply res \<in> set (reverse_proxy h w r)"
    by (cases rule: sent_cases) (use streaming_no_forward in simp_all)
  then obtain resp where "modifyResponse (User h) (Some (outgoing rp_director (w_remote w) r)) resp = Inr res"
    by (rule reply_modified)
  ultimately have "body_bytes (res_body res) = FilterContainerList (body_bytes (res_body resp)) (User h)"
    using assms(3,5) by (auto simp: modifyResponse_def Let_def split: if_splits option.splits)
  then show ?thesis using filtered_items assms(6) by simp
qed

theorem list_isolated_witness:
  "\<exists>res items. EReply res \<in> set (ServeHTTP alice
        (sample_world (quotes ''[{`Labels`:{`dev.boris.isolator.user`:`alice`}},{}]'')) list_request)
     \<and> unmarshal_maps (body_bytes (res_body res)) = Some items
     \<and> list_all (\<lambda>item. owner_of (entries item) = Some ''alice'') items"
proof -
  let ?body = "quotes ''[{`Labels`:{`dev.boris.isolator.user`:`alice`}},{}]''"
  let ?w = "sample_world ?body" and ?r = list_request
  let ?resp = "(ok_response ?body)\<lparr>res_header := remove_hop_by_hop (res_header (ok_response ?body))\<rparr>"
  have m: "req_method ?r = ''GET''" by (simp add: sample_request_def)
  have t: "plain_target ''/v1.41/containers/json''" by code_simp
  have p: "wire_path (req_url ?r) = ''/v1.41/containers/json''" "url_path (req_url ?r) = ''/v1.41/containers/json''"
    "re_match reContainersList ''/v1.41/containers/json''"
    unfolding wire_path_def sample_plain [OF t] by code_simp+
  obtain res where res: "modifyResponse (User alice) (Some (outgoing rp_director (w_remote ?w) ?r)) ?resp = Inr res"
    "res_status res = 200" "body_bytes (res_body res) = FilterContainerList ?body ''alice''"
    using p m by (simp add: modifyResponse_def ok_response_def Let_def NewHandler_def)
  have "ServeHTTP alice ?w ?r = reverse_proxy alice ?w ?r"
    by (rule serves_proxy; (rule no_container_check)?) (unfold sample_plain [OF t] sample_fields, code_simp+)
  moreover have "EReply res \<in> set (reverse_proxy alice ?w ?r)"
    by (rule reverse_proxy_replies [OF _ _ _ res(1)]) (simp_all add: sample_world_def ok_response_def)
  ultimately have e: "EReply res \<in> set (ServeHTTP alice ?w ?r)" by simp
  have url: "server_url (req_url ?r)" by code_simp
  have path: "re_match reContainersList (wire_path (req_url ?r))" using p by simp
  have "unmarshal_maps ?body \<noteq> None" by code_simp
  then obtain items where items: "unmarshal_maps (body_bytes (res_body res)) = Some items"
    unfolding res(3) using filter_decodes by fastforce
  from list_isolated [OF e url m path res(2) items] e items show ?thesis by (auto simp: NewHandler_def)
qed

text \<open>C23. The handling of a request has exactly one conclusion: one error response, one reply of
  the daemon, one switch to another protocol, one relay, a closed connection, or a panic.  The single
  exception is a streaming request whose connection the handler asks for and does not get: then the
  handler itself concludes nothing.\<close>

theorem one_response:
  "length (filter concludes (ServeHTTP h w r))
     = (if EHijack \<in> set (ServeHTTP h w r) \<and> \<not> w_hijack_ok w then 0 else 1)"
proof -
  have "one_conclusion w (ServeHTTP h w r)"
    unfolding ServeHTTP_def Let_def handleLargeBody_def handleContainerCreate_def handleNetworkCreate_def
    by (simp split: option.split sum.split prod.split)
  then show ?thesis by (simp add: one_conclusion_def)
qed

text \<open>C24. Whatever the proxy answers itself is an error response of one form: one of the six statuses, the
  content type \<open>application/json\<close>, the length of the body, the announcement that the connection is
  closed, and a body that decodes to an object with exactly the field \<open>message\<close>.\<close>

theorem own_responses_typed:
  assumes "ERespond resp \<in> set (ServeHTTP h w r)"
  shows "resp_status resp \<in> {400, 403, 404, 413, 500, 502}
    \<and> resp_headers resp = [(''Content-Type'', ''application/json''),
         (''Content-Length'', itoa (int (length (resp_body resp)))), (''Connection'', ''close'')]
    \<and> (\<exists>msg. unmarshal (resp_body resp) = Some (JObj [(''message'', JStr msg)]))"
proof -
  have "error_response resp"
    using ServeHTTP_responds_errors [of h w r] assms by (auto simp: responds_errors_def list_all_iff)
  then show ?thesis
    by (auto simp: error_response_def writeJSONError_def Let_def makeJSONErrorBody_decodes)
qed

theorem own_responses_typed_witness:
  "\<exists>resp. ERespond resp \<in> set (ServeHTTP alice (sample_world []) (sample_request ''GET'' ''/v1.41/swarm'' []))
     \<and> resp_status resp = 403
     \<and> (\<exists>msg. unmarshal (resp_body resp) = Some (JObj [(''message'', JStr msg)]))"
proof -
  let ?r = "sample_request ''GET'' ''/v1.41/swarm'' []"
  have t: "plain_target ''/v1.41/swarm''" by code_simp
  have "\<not> is_endpoint_allowed (req_method ?r) (request_uri (req_url ?r)) (User alice)"
    "find (\<lambda>te. te \<noteq> ''chunked'') (req_te ?r) = None"
    unfolding sample_plain [OF t] sample_fields by code_simp+
  then obtain resp where "ERespond resp \<in> set (ServeHTTP alice (sample_world []) ?r)" "resp_status resp = 403"
    by (simp add: ServeHTTP_def writeJSONError_def Let_def)
  then show ?thesis using own_responses_typed by blast
qed

text \<open>C26. Reading a body takes at most one byte more than the limit from the client, however the stream is
  cut into reads, and comes to the same result in every case: the whole body when it is within the
  limit, an error otherwise.\<close>

theorem bounded_reads:
  assumes "0 \<le> limit"
  shows "fst (read_bounded chunk r limit) = readBoundedBody r limit
    \<and> int (length (body_bytes r)) \<le> int (length (snd (read_bounded chunk r limit))) + limit + 1
    \<and> suffix (snd (read_bounded chunk r limit)) (body_bytes r)"
proof -
  have "nat (limit + 1) \<le> length (body_bytes r) \<longleftrightarrow> limit < int (length (body_bytes r))" by linarith
  then show ?thesis
    using assms
    by (auto simp: read_bounded_def read_all_limited_take readBoundedBody_def suffix_drop split: option.split)
qed

theorem bounded_reads_witness:
  "snd (read_bounded (\<lambda>k. 1) \<lparr>body_bytes = ''abcdefgh'', body_err = None\<rparr> 4) = ''fgh''
   \<and> readBoundedBody \<lparr>body_bytes = ''abcdefgh'', body_err = None\<rparr> 4 = Inl BodyTooLarge"
proof -
  have "read_bounded (\<lambda>k. 1) \<lparr>body_bytes = ''abcdefgh'', body_err = None\<rparr> 4 = (Inl BodyTooLarge, ''fgh'')"
    by code_simp
  then show ?thesis
    using bounded_reads [of 4 "\<lambda>k. 1" "\<lparr>body_bytes = ''abcdefgh'', body_err = None\<rparr>"] by simp
qed

text \<open>C40. The path of a client cannot inject into a subrequest: the first inspection that a
  request causes is exactly one GET request with the fixed headers, whatever the client sent.\<close>

theorem subrequest_not_injected:
  assumes "fst (maybeCheckOwnership h w r) = s # ss"
  shows "\<exists>q. plain_path q \<and> split_on newline s =
     [''GET '' @ q @ '' HTTP/1.1'' @ [carriage], ''Host: docker'' @ [carriage],
      ''Connection: close'' @ [carriage], [carriage], []]"
proof -
  let ?p = "url_path (req_url r)"
  have "\<exists>q. plain_path q \<and> s = subrequest_bytes q"
  proof (cases "re_match reExecAction ?p")
    case True
    then obtain ver n where n: "names_exec ?p ver n" by (rule exec_names_exec)
    have "maybeCheckOwnership h w r = CheckExecOwned (w_answers w) (User h) ver n"
      using True names_exec_target [OF n] by (simp add: maybeCheckOwnership_def Let_def)
    then show ?thesis
      using assms exec_check.first_subrequest exec_inspect_plain [OF n] by metis
  next
    case False
    then have acts: "acts_on_container ?p"
      using assms by (auto simp: maybeCheckOwnership_def acts_on_container_def Let_def split: if_splits)
    then obtain ver n where n: "names_container ?p ver n"
      unfolding acts_on_container_def by (rule action_names_container)
    have "fst (maybeCheckOwnership h w r) \<noteq> [] \<Longrightarrow>
        maybeCheckOwnership h w r = CheckContainerOwned (w_answers w) 0 (User h) ver n"
      using acts False names_container_target [OF n]
      by (auto simp: maybeCheckOwnership_def acts_on_container_def Let_def split: if_splits)
    then have "s = subrequest_bytes (container_inspect_path ver n)"
      using assms container_check.first_subrequest by (metis list.distinct(1))
    then show ?thesis using container_inspect_plain [OF n] by blast
  qed
  then show ?thesis using subrequest_lines by blast
qed

theorem subrequest_not_injected_witness:
  "\<exists>q. plain_path q \<and> split_on newline (subrequest_bytes (container_inspect_path ''v1.41'' ''web'')) =
     [''GET '' @ q @ '' HTTP/1.1'' @ [carriage], ''Host: docker'' @ [carriage],
      ''Connection: close'' @ [carriage], [carriage], []]"
proof -
  have "fst (maybeCheckOwnership alice (sample_world []) attach_request)
      = [subrequest_bytes (container_inspect_path ''v1.41'' ''web'')]"
    by code_simp
  then show ?thesis by (rule subrequest_not_injected)
qed

text \<open>Image builds and loads are forwarded with the client's body, length and transfer
  encoding as they are: the size limit and the body checks do not apply to them.\<close>

theorem large_body_untouched:
  assumes "isLargeBodyPath (req_method r) (url_path (req_url r))" "EForward out \<in> set (ServeHTTP h w r)"
  shows "req_length out = req_length r \<and> req_te out = req_te r
    \<and> req_body out = (if req_length r = 0 then None else req_body r)"
proof -
  from assms(2) reaches_forward have "EForward out \<in> set (reverse_proxy h w r)"
    by (cases rule: sent_cases)
      (use assms(1) create_not_others network_not_others streaming_no_forward in simp_all)
  from reverse_proxy_forward [OF this] show ?thesis by simp
qed

theorem large_body_untouched_witness:
  "\<exists>out. EForward out \<in> set (ServeHTTP alice (sample_world []) build_request)
     \<and> req_body out = req_body build_request"
proof -
  let ?r = build_request
  have large: "isLargeBodyPath (req_method ?r) (url_path (req_url ?r))" by code_simp
  have "ServeHTTP alice (sample_world []) ?r = reverse_proxy alice (sample_world []) ?r"
    by (rule serves_large [OF _ _ large]) code_simp+
  then have f: "EForward (outgoing rp_director (w_remote (sample_world [])) ?r)
      \<in> set (ServeHTTP alice (sample_world []) ?r)"
    using reverse_proxy_sends [of ?r "sample_world []" alice] by simp
  from large_body_untouched [OF large f] f show ?thesis by (auto simp: sample_request_def)
qed

text \<open>A container that is named \<open>create\<close> (or \<open>json\<close>) escapes the ownership check: for every user,
  daemon and file tree, stopping it is forwarded at once, with no inspection.\<close>

theorem reserved_names_unchecked:
  "ServeHTTP h w (sample_request ''POST'' ''/v1.41/containers/create/stop'' [])
     = reverse_proxy h w (sample_request ''POST'' ''/v1.41/containers/create/stop'' [])"
proof -
  have t: "plain_target ''/v1.41/containers/create/stop''" by code_simp
  show ?thesis
    by (rule serves_proxy; (rule no_container_check)?) (unfold sample_plain [OF t] sample_fields, code_simp+)
qed

text \<open>A tail that decodes to a line feed skips the ownership check: the allowlist sees the
  escaped path, where the dot of \<open>(/.*)?\<close> matches, while the handler matches the decoded path,
  where it does not; the request is forwarded with no inspection.\<close>

theorem newline_unchecked:
  "ServeHTTP h w (sample_request ''POST'' ''/v1.41/containers/web/stop/%0A'' [])
     = reverse_proxy h w (sample_request ''POST'' ''/v1.41/containers/web/stop/%0A'' [])"
  by (rule serves_proxy; (rule no_container_check)?) code_simp+

end
