(* ===== verification/Relay.thy ===== *)
theory Relay
  imports Prelude
begin

text \<open>
  \<open>internal/proxy/relay.go\<close>: the bidirectional relay as a transition system.  Each direction is a
  \<open>pipe\<close>: an \<open>io.Copy\<close> goroutine between a peer that sends and a connection that is written to.
  \<open>relay_step\<close> has the steps of the two goroutines and of the code behind \<open>wg.Wait\<close>; \<open>peer_step\<close>
  has what the two peers may do at any moment (send, close, break).  The system is compared with
  a channel that delivers a growing prefix of what was sent.
\<close>

section \<open>State\<close>

text \<open>A goroutine is copying, has returned from \<open>io.Copy\<close>, or is done after \<open>closeWrite\<close>.\<close>

datatype phase = Copying | Returned | Done

record pipe =
  sent :: gostring
  pending :: gostring
  buffer :: gostring
  delivered :: gostring
  ended :: bool
  src_broken :: bool
  dst_broken :: bool
  cut :: bool
  phase :: phase
  can_close_write :: bool
  write_closed :: bool

record relay =
  to_upstream :: pipe
  to_client :: pipe
  client_closed :: bool
  upstream_closed :: bool

definition new_pipe :: "bool \<Rightarrow> pipe" where
  "new_pipe half =
     \<lparr>sent = [], pending = [], buffer = [], delivered = [], ended = False, src_broken = False,
       dst_broken = False, cut = False, phase = Copying, can_close_write = half, write_closed = False\<rparr>"

definition Relay :: "bool \<Rightarrow> bool \<Rightarrow> relay" where
  "Relay client_half upstream_half =
     \<lparr>to_upstream = new_pipe upstream_half, to_client = new_pipe client_half,
       client_closed = False, upstream_closed = False\<rparr>"

section \<open>Steps\<close>

text \<open>\<open>closeWrite(c)\<close>: a no-op on a connection without half-close.\<close>

definition closeWrite :: "pipe \<Rightarrow> pipe" where
  "closeWrite p = (if can_close_write p then p\<lparr>write_closed := True\<rparr> else p)"

text \<open>\<open>io.Copy\<close>: it reads a non-empty chunk, writes it before it reads again, and returns at
  the end of the source or at the first error of either side.\<close>

inductive copy_step :: "pipe \<Rightarrow> pipe \<Rightarrow> bool" where
  take: "phase p = Copying \<Longrightarrow> buffer p = [] \<Longrightarrow> pending p = xs @ ys \<Longrightarrow> xs \<noteq> [] \<Longrightarrow>
     copy_step p (p\<lparr>buffer := xs, pending := ys\<rparr>)"
| put: "phase p = Copying \<Longrightarrow> buffer p \<noteq> [] \<Longrightarrow>
     copy_step p (p\<lparr>delivered := delivered p @ buffer p, buffer := []\<rparr>)"
| write_error: "phase p = Copying \<Longrightarrow> buffer p = xs @ ys \<Longrightarrow> ys \<noteq> [] \<Longrightarrow> dst_broken p \<Longrightarrow>
     copy_step p (p\<lparr>delivered := delivered p @ xs, buffer := [], cut := True, phase := Returned\<rparr>)"
| read_eof: "phase p = Copying \<Longrightarrow> buffer p = [] \<Longrightarrow> pending p = [] \<Longrightarrow> ended p \<Longrightarrow>
     copy_step p (p\<lparr>phase := Returned\<rparr>)"
| read_error: "phase p = Copying \<Longrightarrow> buffer p = [] \<Longrightarrow> src_broken p \<Longrightarrow>
     copy_step p (p\<lparr>cut := True, phase := Returned\<rparr>)"
| close_write: "phase p = Returned \<Longrightarrow> copy_step p ((closeWrite p)\<lparr>phase := Done\<rparr>)"

inductive relay_step :: "relay \<Rightarrow> relay \<Rightarrow> bool" where
  up: "copy_step (to_upstream s) p \<Longrightarrow> relay_step s (s\<lparr>to_upstream := p\<rparr>)"
| down: "copy_step (to_client s) p \<Longrightarrow> relay_step s (s\<lparr>to_client := p\<rparr>)"
| close_client: "phase (to_upstream s) = Done \<Longrightarrow> phase (to_client s) = Done \<Longrightarrow> \<not> client_closed s \<Longrightarrow>
     relay_step s (s\<lparr>client_closed := True\<rparr>)"
| close_upstream: "client_closed s \<Longrightarrow> \<not> upstream_closed s \<Longrightarrow> relay_step s (s\<lparr>upstream_closed := True\<rparr>)"

text \<open>The peer that a pipe reads from, and the connection that it writes to.\<close>

inductive peer_step :: "pipe \<Rightarrow> pipe \<Rightarrow> bool" where
  send: "\<not> ended p \<Longrightarrow> peer_step p (p\<lparr>sent := sent p @ xs, pending := pending p @ xs\<rparr>)"
| finish: "peer_step p (p\<lparr>ended := True\<rparr>)"
| source_breaks: "peer_step p (p\<lparr>src_broken := True\<rparr>)"
| destination_breaks: "peer_step p (p\<lparr>dst_broken := True\<rparr>)"

inductive reachable :: "relay \<Rightarrow> relay \<Rightarrow> bool" for s0 where
  start: "reachable s0 s0"
| step: "reachable s0 s \<Longrightarrow> relay_step s s' \<Longrightarrow> reachable s0 s'"
| client_sends: "reachable s0 s \<Longrightarrow> peer_step (to_upstream s) p \<Longrightarrow> reachable s0 (s\<lparr>to_upstream := p\<rparr>)"
| upstream_sends: "reachable s0 s \<Longrightarrow> peer_step (to_client s) p \<Longrightarrow> reachable s0 (s\<lparr>to_client := p\<rparr>)"

inductive_cases copy_stepE: "copy_step p p'"
inductive_cases relay_stepE: "relay_step s s'"
inductive_cases peer_stepE: "peer_step p p'"

section \<open>Invariant\<close>

definition pipe_inv :: "pipe \<Rightarrow> bool" where
  "pipe_inv p \<longleftrightarrow>
     prefix (delivered p) (sent p)
   \<and> (\<not> cut p \<longrightarrow> sent p = delivered p @ buffer p @ pending p)
   \<and> (phase p \<noteq> Copying \<longrightarrow> buffer p = [] \<and> (\<not> cut p \<longrightarrow> pending p = [] \<and> ended p))
   \<and> (phase p = Copying \<longrightarrow> \<not> cut p)
   \<and> (write_closed p \<longrightarrow> phase p = Done)"

definition relay_inv :: "relay \<Rightarrow> bool" where
  "relay_inv s \<longleftrightarrow> pipe_inv (to_upstream s) \<and> pipe_inv (to_client s)
   \<and> (client_closed s \<longrightarrow> phase (to_upstream s) = Done \<and> phase (to_client s) = Done)
   \<and> (upstream_closed s \<longrightarrow> client_closed s)"

lemma copy_step_inv:
  assumes "copy_step p p'" "pipe_inv p"
  shows "pipe_inv p'"
  using assms by cases (auto simp: pipe_inv_def closeWrite_def prefix_def)

lemma copy_step_Done: "copy_step p p' \<Longrightarrow> phase p \<noteq> Done"
  by (auto elim: copy_stepE)

lemma peer_step_inv:
  assumes "peer_step p p'" "pipe_inv p"
  shows "pipe_inv p'" "phase p' = phase p"
  using assms by (cases; auto simp: pipe_inv_def prefix_def)+

lemma relay_step_inv:
  assumes "relay_step s s'" "relay_inv s"
  shows "relay_inv s'"
  using assms by cases (auto simp: relay_inv_def dest: copy_step_inv copy_step_Done)

lemma reachable_inv:
  assumes "reachable s0 s" "relay_inv s0"
  shows "relay_inv s"
  using assms
proof induction
  case (step s s')
  then show ?case by (blast intro: relay_step_inv)
next
  case (client_sends s p)
  then show ?case by (auto simp: relay_inv_def dest: peer_step_inv)
next
  case (upstream_sends s p)
  then show ?case by (auto simp: relay_inv_def dest: peer_step_inv)
qed

lemma Relay_inv: "relay_inv (Relay c u)"
  by (simp add: Relay_def new_pipe_def relay_inv_def pipe_inv_def)

section \<open>The abstract channel\<close>

text \<open>What a direction promises: the destination sees a growing prefix of what the source sent; at
  the end it has seen all of it, or the channel was cut by an error.\<close>

datatype status = Open | Complete | Cut

record channel =
  c_sent :: gostring
  c_seen :: gostring
  c_status :: status

definition channel_of :: "pipe \<Rightarrow> channel" where
  "channel_of p =
     \<lparr>c_sent = sent p, c_seen = delivered p,
       c_status = (if phase p \<noteq> Done then Open else if cut p then Cut else Complete)\<rparr>"

inductive channel_step :: "channel \<Rightarrow> channel \<Rightarrow> bool" where
  idle: "channel_step c c"
| see: "c_status c = Open \<Longrightarrow> prefix (c_seen c @ xs) (c_sent c) \<Longrightarrow>
     channel_step c (c\<lparr>c_seen := c_seen c @ xs\<rparr>)"
| complete: "c_status c = Open \<Longrightarrow> c_seen c = c_sent c \<Longrightarrow> channel_step c (c\<lparr>c_status := Complete\<rparr>)"
| break_off: "c_status c = Open \<Longrightarrow> channel_step c (c\<lparr>c_status := Cut\<rparr>)"

lemma channel_of_Copying:
  assumes "phase p \<noteq> Done" "phase p' \<noteq> Done" "sent p' = sent p" "delivered p' = delivered p @ xs"
    "prefix (delivered p') (sent p)"
  shows "channel_step (channel_of p) (channel_of p')"
proof -
  have "channel_of p' = (channel_of p)\<lparr>c_seen := c_seen (channel_of p) @ xs\<rparr>"
    using assms by (simp add: channel_of_def)
  then show ?thesis
    using channel_step.see [of "channel_of p" xs] assms by (simp add: channel_of_def)
qed

lemma copy_step_channel:
  assumes "copy_step p p'" "pipe_inv p"
  shows "channel_step (channel_of p) (channel_of p')"
proof (cases "phase p = Returned")
  case True
  from assms(1) True have p': "p' = (closeWrite p)\<lparr>phase := Done\<rparr>" by cases simp_all
  have c: "channel_of p' = (channel_of p)\<lparr>c_status := (if cut p then Cut else Complete)\<rparr>"
    using True by (simp add: p' channel_of_def closeWrite_def)
  have "c_status (channel_of p) = Open" using True by (simp add: channel_of_def)
  moreover have "c_seen (channel_of p) = c_sent (channel_of p)" if "\<not> cut p"
    using that assms(2) True by (simp add: channel_of_def pipe_inv_def)
  ultimately show ?thesis
    unfolding c by (cases "cut p") (simp_all add: channel_step.complete channel_step.break_off)
next
  case False
  have inv: "pipe_inv p'" by (rule copy_step_inv [OF assms])
  then have "prefix (delivered p') (sent p')" by (simp add: pipe_inv_def)
  moreover have "phase p \<noteq> Done" "phase p' \<noteq> Done" "sent p' = sent p" "\<exists>xs. delivered p' = delivered p @ xs"
    using assms(1) False by (cases; simp)+
  ultimately show ?thesis using channel_of_Copying [of p p'] by metis
qed

section \<open>Termination\<close>
















section \<open>A run\<close>

lemma up_run: "(copy_step ^^ n) (to_upstream s) p \<Longrightarrow> (relay_step ^^ n) s (s\<lparr>to_upstream := p\<rparr>)"
proof (induction n arbitrary: p)
  case (Suc n)
  then obtain q where q: "(copy_step ^^ n) (to_upstream s) q" "copy_step q p" by auto
  then show ?case using Suc.IH [OF q(1)] relay_step.up [of "s\<lparr>to_upstream := q\<rparr>" p] by auto
qed simp

lemma down_run: "(copy_step ^^ n) (to_client s) p \<Longrightarrow> (relay_step ^^ n) s (s\<lparr>to_client := p\<rparr>)"
proof (induction n arbitrary: p)
  case (Suc n)
  then obtain q where q: "(copy_step ^^ n) (to_client s) q" "copy_step q p" by auto
  then show ?case using Suc.IH [OF q(1)] relay_step.down [of "s\<lparr>to_client := q\<rparr>" p] by auto
qed simp

lemma reachable_run: "(relay_step ^^ n) s s' \<Longrightarrow> reachable s0 s \<Longrightarrow> reachable s0 s'"
  by (induction n arbitrary: s') (auto intro: reachable.step)

text \<open>The client sends \<open>hi\<close> and ends, the daemon ends; the relay carries the bytes and closes.\<close>

definition hi_sent :: relay where
  "hi_sent = (Relay True True)\<lparr>
     to_upstream := (new_pipe True)\<lparr>sent := ''hi'', pending := ''hi'', ended := True\<rparr>,
     to_client := (new_pipe True)\<lparr>ended := True\<rparr>\<rparr>"

definition hi_closed :: relay where
  "hi_closed =
     \<lparr>to_upstream = (new_pipe True)\<lparr>sent := ''hi'', delivered := ''hi'', ended := True, phase := Done, write_closed := True\<rparr>,
       to_client = (new_pipe True)\<lparr>ended := True, phase := Done, write_closed := True\<rparr>,
       client_closed = True, upstream_closed = True\<rparr>"

lemma hi_sent_reachable: "reachable (Relay True True) hi_sent"
proof -
  let ?s0 = "Relay True True" and ?p = "new_pipe True"
  have "reachable ?s0 (?s0\<lparr>to_upstream := ?p\<lparr>sent := ''hi'', pending := ''hi''\<rparr>\<rparr>)" (is "reachable _ ?s1")
    using reachable.client_sends [OF reachable.start peer_step.send, of ?s0 "''hi''"]
    by (simp add: Relay_def new_pipe_def)
  from reachable.client_sends [OF this peer_step.finish]
  have "reachable ?s0 (?s1\<lparr>to_upstream := (to_upstream ?s1)\<lparr>ended := True\<rparr>\<rparr>)" (is "reachable _ ?s2") .
  from reachable.upstream_sends [OF this peer_step.finish] show ?thesis
    by (simp add: hi_sent_def Relay_def)
qed

lemma hi_runs: "(relay_step ^^ 8) hi_sent hi_closed"
proof -
  let ?new = "new_pipe True"
  let ?a = "?new\<lparr>sent := ''hi'', pending := ''hi'', ended := True\<rparr>"
  let ?b = "?a\<lparr>buffer := ''hi'', pending := []\<rparr>"
  let ?d = "?b\<lparr>delivered := ''hi'', buffer := []\<rparr>"
  let ?e = "?d\<lparr>phase := Done, write_closed := True\<rparr>"
  have "copy_step ?a ?b" using copy_step.take [of ?a "''hi''" "[]"] by (simp add: new_pipe_def)
  moreover have "copy_step ?b ?d" using copy_step.put [of ?b] by (simp add: new_pipe_def)
  moreover have "copy_step ?d (?d\<lparr>phase := Returned\<rparr>)"
    using copy_step.read_eof [of ?d] by (simp add: new_pipe_def)
  moreover have "copy_step (?d\<lparr>phase := Returned\<rparr>) ?e"
    using copy_step.close_write [of "?d\<lparr>phase := Returned\<rparr>"] by (simp add: new_pipe_def closeWrite_def)
  ultimately have "(copy_step ^^ 4) ?a ?e" by (auto simp: numeral_eq_Suc relcomppI)
  then have up: "(relay_step ^^ 4) hi_sent (hi_sent\<lparr>to_upstream := ?e\<rparr>)"
    by (intro up_run) (simp add: hi_sent_def)
  let ?t = "hi_sent\<lparr>to_upstream := ?e\<rparr>"
  let ?q = "?new\<lparr>ended := True\<rparr>"
  let ?qd = "?q\<lparr>phase := Done, write_closed := True\<rparr>"
  let ?v = "?t\<lparr>to_client := ?qd\<rparr>"
  have "copy_step ?q (?q\<lparr>phase := Returned\<rparr>)"
    using copy_step.read_eof [of ?q] by (simp add: new_pipe_def)
  moreover have "copy_step (?q\<lparr>phase := Returned\<rparr>) (?q\<lparr>phase := Done, write_closed := True\<rparr>)"
    using copy_step.close_write [of "?q\<lparr>phase := Returned\<rparr>"] by (simp add: new_pipe_def closeWrite_def)
  ultimately have "(copy_step ^^ 2) ?q ?qd" by (auto simp: numeral_eq_Suc relcomppI)
  then have down: "(relay_step ^^ 2) ?t (?t\<lparr>to_client := ?qd\<rparr>)"
    by (intro down_run) (simp add: hi_sent_def)
  have "relay_step ?v (?v\<lparr>client_closed := True\<rparr>)"
    by (rule relay_step.close_client) (simp_all add: hi_sent_def Relay_def)
  moreover have "relay_step (?v\<lparr>client_closed := True\<rparr>) (?v\<lparr>client_closed := True, upstream_closed := True\<rparr>)"
    using relay_step.close_upstream [of "?v\<lparr>client_closed := True\<rparr>"] by (simp add: hi_sent_def Relay_def)
  ultimately have "(relay_step ^^ 2) ?v (?v\<lparr>client_closed := True, upstream_closed := True\<rparr>)"
    by (auto simp: numeral_eq_Suc relcomppI)
  moreover have "?v\<lparr>client_closed := True, upstream_closed := True\<rparr> = hi_closed"
    by (simp add: hi_sent_def hi_closed_def Relay_def new_pipe_def)
  ultimately have last: "(relay_step ^^ 2) ?v hi_closed" by (simp only:)
  have "(relay_step ^^ (4 + (2 + 2))) hi_sent hi_closed"
    by (rule relpowp_trans [OF up relpowp_trans [OF down last]])
  then show ?thesis by simp
qed


section \<open>Properties\<close>

text \<open>C11. The relay neither loses, reorders nor invents bytes: at every moment each side has received
  a prefix of what the other sent; a direction that finished without an error of a connection
  delivered everything up to the end of its source; the write side is half-closed only after
  that; and the connections are closed only when both directions are done.\<close>

theorem relay_faithful:
  assumes "reachable (Relay c u) s" "p \<in> {to_upstream s, to_client s}"
  shows "prefix (delivered p) (sent p)
    \<and> (if phase p \<noteq> Copying \<and> \<not> cut p then delivered p = sent p \<and> ended p else True)
    \<and> (if write_closed p then phase p = Done else True)
    \<and> (if client_closed s then phase p = Done else \<not> upstream_closed s)"
proof -
  have inv: "relay_inv s" by (rule reachable_inv [OF assms(1) Relay_inv])
  have p: "pipe_inv p" "client_closed s \<longrightarrow> phase p = Done" "upstream_closed s \<longrightarrow> client_closed s"
    using inv assms(2) by (auto simp only: relay_inv_def insert_iff empty_iff)
  have "delivered p = sent p \<and> ended p" if "phase p \<noteq> Copying" "\<not> cut p"
    using p(1) that by (simp add: pipe_inv_def)
  moreover have "prefix (delivered p) (sent p)" "write_closed p \<longrightarrow> phase p = Done"
    using p(1) by (auto simp only: pipe_inv_def)
  ultimately show ?thesis using p(2,3) by (cases "client_closed s") auto
qed

theorem relay_faithful_witness:
  "\<exists>s. reachable (Relay True True) s \<and> client_closed s \<and> write_closed (to_upstream s)
     \<and> phase (to_client s) = Done \<and> sent (to_upstream s) = ''hi''
     \<and> delivered (to_upstream s) = ''hi'' \<and> ended (to_upstream s)"
proof -
  have r: "reachable (Relay True True) hi_closed" by (rule reachable_run [OF hi_runs hi_sent_reachable])
  have p: "phase (to_upstream hi_closed) \<noteq> Copying" "\<not> cut (to_upstream hi_closed)"
    "write_closed (to_upstream hi_closed)" "client_closed hi_closed" "sent (to_upstream hi_closed) = ''hi''"
    by (simp_all add: hi_closed_def new_pipe_def)
  from relay_faithful [OF r, of "to_upstream hi_closed"] relay_faithful [OF r, of "to_client hi_closed"] r p
  show ?thesis by (intro exI [of _ hi_closed]) simp
qed

text \<open>C18. Each direction of the relay refines the abstract channel: every step of either goroutine,
  and of the code that closes the connections, is a step of the channel or leaves it alone.\<close>

theorem relay_refines_channel:
  assumes "reachable (Relay c u) s" "relay_step s s'"
  shows "channel_step (channel_of (to_upstream s)) (channel_of (to_upstream s'))
    \<and> channel_step (channel_of (to_client s)) (channel_of (to_client s'))"
proof -
  have inv: "relay_inv s" by (rule reachable_inv [OF assms(1) Relay_inv])
  show ?thesis
    using assms(2) inv by cases (auto simp: relay_inv_def intro: copy_step_channel channel_step.idle)
qed

theorem relay_refines_channel_witness:
  "channel_step (channel_of ((new_pipe True)\<lparr>ended := True\<rparr>))
     (channel_of ((new_pipe True)\<lparr>ended := True, phase := Returned\<rparr>))"
proof -
  let ?s = "(Relay True True)\<lparr>to_client := (new_pipe True)\<lparr>ended := True\<rparr>\<rparr>"
  have "reachable (Relay True True) ?s"
    using reachable.upstream_sends [OF reachable.start peer_step.finish, of "Relay True True"]
    by (simp add: Relay_def)
  moreover have "relay_step ?s (?s\<lparr>to_client := (new_pipe True)\<lparr>ended := True, phase := Returned\<rparr>\<rparr>)"
    using relay_step.down [OF copy_step.read_eof, of ?s] by (simp add: new_pipe_def)
  ultimately show ?thesis using relay_refines_channel by fastforce
qed



text \<open>One side is not enough: when only the daemon ends its stream and the client keeps its own
  open, the relay comes to rest with that direction done and both connections open; it waits for
  the client.\<close>

theorem relay_waits_for_both:
  "\<exists>s. reachable (Relay True True) s \<and> phase (to_client s) = Done \<and> write_closed (to_client s)
     \<and> \<not> client_closed s \<and> \<not> upstream_closed s \<and> (\<forall>s'. \<not> relay_step s s')"
proof -
  let ?s0 = "Relay True True"
  let ?p = "new_pipe True"
  let ?s1 = "?s0\<lparr>to_client := ?p\<lparr>ended := True\<rparr>\<rparr>"
  let ?s2 = "?s0\<lparr>to_client := ?p\<lparr>ended := True, phase := Returned\<rparr>\<rparr>"
  let ?s3 = "?s0\<lparr>to_client := ?p\<lparr>ended := True, phase := Done, write_closed := True\<rparr>\<rparr>"
  have "reachable ?s0 ?s1"
    using reachable.upstream_sends [OF reachable.start peer_step.finish, of ?s0] by (simp add: Relay_def)
  moreover have "relay_step ?s1 ?s2"
    using relay_step.down [OF copy_step.read_eof, of ?s1] by (simp add: new_pipe_def)
  moreover have "relay_step ?s2 ?s3"
    using relay_step.down [OF copy_step.close_write, of ?s2] by (simp add: new_pipe_def closeWrite_def)
  ultimately have "reachable ?s0 ?s3" by (blast intro: reachable.step)
  moreover have "\<not> relay_step ?s3 s'" for s'
    by (auto simp: Relay_def new_pipe_def elim!: relay_stepE copy_stepE)
  ultimately show ?thesis
    by (intro exI [of _ ?s3]) (simp add: Relay_def new_pipe_def)
qed

text \<open>Whatever the client sends is carried to the daemon.\<close>

lemma relay_carries: "\<exists>s. reachable (Relay c u) s \<and> delivered (to_upstream s) = bs"
proof (cases "bs = []")
  case True
  then show ?thesis using reachable.start by (intro exI [of _ "Relay c u"]) (simp add: Relay_def new_pipe_def)
next
  case False
  let ?s0 = "Relay c u" and ?p = "new_pipe u"
  let ?s1 = "?s0\<lparr>to_upstream := ?p\<lparr>sent := bs, pending := bs\<rparr>\<rparr>"
  let ?s2 = "?s0\<lparr>to_upstream := ?p\<lparr>sent := bs, pending := [], buffer := bs\<rparr>\<rparr>"
  let ?s3 = "?s0\<lparr>to_upstream := ?p\<lparr>sent := bs, pending := [], buffer := [], delivered := bs\<rparr>\<rparr>"
  have "reachable ?s0 ?s1"
    using reachable.client_sends [OF reachable.start peer_step.send, of ?s0 bs]
    by (simp add: Relay_def new_pipe_def)
  moreover have "relay_step ?s1 ?s2"
    using relay_step.up [OF copy_step.take, of ?s1 bs "[]"] False by (simp add: new_pipe_def)
  moreover have "relay_step ?s2 ?s3"
    using relay_step.up [OF copy_step.put, of ?s2] False by (simp add: new_pipe_def)
  ultimately have "reachable ?s0 ?s3" by (blast intro: reachable.step)
  then show ?thesis by (intro exI [of _ ?s3]) simp
qed

end
