(* ===== verification/Connect.thy ===== *)
theory Connect
  imports Http "HOL-Library.Word"
begin

text \<open>
  \<open>internal/proxy/connect.go\<close>: the host allowlist, which is read from a file and replaced as a
  whole on reload, and the CONNECT proxy, as the list of events that one accepted connection
  produces.  The lower-case mapping of the non-ASCII code points is a parameter (\<open>uni\<close>, the
  tables of the \<open>unicode\<close> package); so are the file, the client's request and the outcome of each
  socket operation.
\<close>

section \<open>Lower case\<close>

function map_runes :: "(nat \<Rightarrow> nat) \<Rightarrow> gostring \<Rightarrow> gostring" where
  "map_runes f s =
     (if s = [] then []
      else case decode_rune s of (r, n) \<Rightarrow> encode_rune (f r) @ map_runes f (drop n s))"
  by pat_completeness auto
termination
  by (relation "measure (\<lambda>(f, s). length s)") (auto dest: decode_rune_progress [OF _ sym])

declare map_runes.simps [simp del]

definition lower_rune :: "(nat \<Rightarrow> nat) \<Rightarrow> nat \<Rightarrow> nat" where
  "lower_rune uni r = (if r < 0x80 then of_char (ascii_lower (byte r)) else uni r)"

definition to_lower :: "(nat \<Rightarrow> nat) \<Rightarrow> gostring \<Rightarrow> gostring" where
  "to_lower uni s = map_runes (lower_rune uni) s"

lemma to_lower_ascii: "list_all (\<lambda>c. byte_val c < 0x80) s \<Longrightarrow> to_lower uni s = map ascii_lower s"
proof (induction s)
  case (Cons c s)
  have c: "byte_val c < 0x80" using Cons.prems by simp
  have "byte_val (ascii_lower c) < 0x80"
    using c by (auto simp: ascii_lower_def in_range_def)
  then have "encode_rune (lower_rune uni (byte_val c)) = [ascii_lower c]"
    using c encode_rune_ascii [of "ascii_lower c"] by (simp add: lower_rune_def)
  then show ?case
    using Cons decode_rune_ascii [OF c, of s] by (simp add: to_lower_def map_runes.simps [of _ "c # s"])
qed (simp add: to_lower_def map_runes.simps)

section \<open>The host allowlist\<close>

record host_allowlist =
  al_path :: gostring
  al_hosts :: "gostring list"
  al_suffixes :: "gostring list"

text \<open>\<open>bufio.Scanner\<close> with \<open>ScanLines\<close>: lines end at a line feed, a final empty line is not
  reported, one trailing carriage return is dropped, and a line that does not fit the buffer
  of 65536 bytes stops the scan with an error.\<close>

definition drop_cr :: "gostring \<Rightarrow> gostring" where
  "drop_cr line = (if line \<noteq> [] \<and> last line = carriage then butlast line else line)"

definition raw_lines :: "gostring \<Rightarrow> gostring list" where
  "raw_lines content =
     (let ls = split_on newline content in if last ls = [] then butlast ls else ls)"

definition max_line :: int where
  "max_line = 65536"

definition scan_lines :: "gostring \<Rightarrow> gostring list option" where
  "scan_lines content =
     (if list_all (\<lambda>l. int (length l) < max_line) (raw_lines content)
      then Some (map drop_cr (raw_lines content)) else None)"

text \<open>One line of the file: the exact host or the suffix that it adds.\<close>

datatype entry = Skip | Exact gostring | Suffix gostring

definition host_entry :: "(nat \<Rightarrow> nat) \<Rightarrow> gostring \<Rightarrow> entry" where
  "host_entry uni text =
     (let line = trim_space text
      in if line = [] \<or> prefix ''#'' line then Skip
         else let low = to_lower uni line
              in if prefix ''*.'' low then Suffix (drop 1 low) else Exact low)"

fun add_entry :: "entry \<Rightarrow> gostring list \<times> gostring list \<Rightarrow> gostring list \<times> gostring list" where
  "add_entry Skip (hosts, sfx) = (hosts, sfx)"
| "add_entry (Exact h) (hosts, sfx) = (List.insert h hosts, sfx)"
| "add_entry (Suffix t) (hosts, sfx) = (hosts, sfx @ [t])"

text \<open>\<open>Reload\<close>: \<open>read_file\<close> is \<open>os.Open\<close> followed by the reads of the scanner; the flag says whether
  the contents could be read to the end.  On an error the allowlist stays as it was.\<close>

type_synonym file_reader = "gostring \<Rightarrow> (gostring \<times> bool) option"

definition Reload :: "(nat \<Rightarrow> nat) \<Rightarrow> file_reader \<Rightarrow> host_allowlist \<Rightarrow> host_allowlist \<times> bool" where
  "Reload uni read_file a =
     (case read_file (al_path a) of
        None \<Rightarrow> (a, False)
      | Some (content, whole) \<Rightarrow>
          (case (if whole then scan_lines content else None) of
             None \<Rightarrow> (a, False)
           | Some ls \<Rightarrow>
               (case fold (\<lambda>l. add_entry (host_entry uni l)) ls ([], []) of
                  (hosts, sfx) \<Rightarrow> (a\<lparr>al_hosts := hosts, al_suffixes := sfx\<rparr>, True))))"

definition LoadHostAllowlist :: "(nat \<Rightarrow> nat) \<Rightarrow> file_reader \<Rightarrow> gostring \<Rightarrow> host_allowlist option" where
  "LoadHostAllowlist uni read_file path =
     (case Reload uni read_file \<lparr>al_path = path, al_hosts = [], al_suffixes = []\<rparr> of
        (a, ok) \<Rightarrow> if ok then Some a else None)"

definition Contains :: "(nat \<Rightarrow> nat) \<Rightarrow> host_allowlist \<Rightarrow> gostring \<Rightarrow> bool" where
  "Contains uni a host =
     (let low = to_lower uni host
      in if low \<in> set (al_hosts a) then True else list_ex (\<lambda>suf. suffix suf low) (al_suffixes a))"

definition Size :: "host_allowlist \<Rightarrow> nat \<times> nat" where
  "Size a = (length (al_hosts a), length (al_suffixes a))"

section \<open>Host and port\<close>

text \<open>\<open>net.SplitHostPort\<close>.\<close>

definition last_index :: "char \<Rightarrow> gostring \<Rightarrow> nat option" where
  "last_index c s =
     (if c \<in> set s then Some (length s - 1 - length (takeWhile (\<lambda>d. d \<noteq> c) (rev s))) else None)"

definition first_index :: "char \<Rightarrow> gostring \<Rightarrow> nat option" where
  "first_index c s = (if c \<in> set s then Some (length (takeWhile (\<lambda>d. d \<noteq> c) s)) else None)"

definition split_host_port :: "gostring \<Rightarrow> (gostring \<times> gostring) option" where
  "split_host_port s =
     (case last_index CHR '':'' s of
        None \<Rightarrow> None
      | Some i \<Rightarrow>
          let checked = (\<lambda>host j k.
                if CHR ''['' \<in> set (drop j s) then None
                else if CHR '']'' \<in> set (drop k s) then None
                else Some (host, drop (i + 1) s))
          in if hd s = CHR ''['' then
               (case first_index CHR '']'' s of
                  None \<Rightarrow> None
                | Some e \<Rightarrow>
                    if e + 1 = i then checked (drop 1 (take e s)) 1 (e + 1) else None)
             else if CHR '':'' \<in> set (take i s) then None
             else checked (take i s) 0 0)"

section \<open>The CONNECT proxy\<close>

datatype connect_event =
    CLog "64 word" gostring "gostring list"
  | CSetReadDeadline
  | CClearReadDeadline
  | CWrite gostring
  | CDial gostring
  | CFlush gostring
  | CRelay
  | CCloseUpstream
  | CCloseClient

text \<open>\<open>cp_connID\<close> is the atomic counter \<open>connID\<close>; it wraps around.\<close>

record connect_proxy =
  cp_user :: gostring
  cp_allowlist :: host_allowlist
  cp_connID :: "64 word"

definition NewConnectProxy :: "gostring \<Rightarrow> host_allowlist \<Rightarrow> connect_proxy" where
  "NewConnectProxy user allowlist = \<lparr>cp_user = user, cp_allowlist = allowlist, cp_connID = 0\<rparr>"

record connect_world =
  cw_request :: "gostring + gostring \<times> gostring"
  cw_dial :: "gostring \<Rightarrow> gostring option"
  cw_write_ok :: bool
  cw_buffered :: gostring
  cw_flush_ok :: bool

definition status_text :: "nat \<Rightarrow> gostring" where
  "status_text status =
     (if status = 400 then ''Bad Request''
      else if status = 403 then ''Forbidden''
      else if status = 405 then ''Method Not Allowed''
      else if status = 502 then ''Bad Gateway'' else [])"

definition deny_response :: "nat \<Rightarrow> gostring \<Rightarrow> gostring" where
  "deny_response status reason =
     (let body = reason @ crlf
      in ''HTTP/1.1 '' @ itoa (int status) @ '' '' @ status_text status @ crlf
         @ ''Content-Type: text/plain'' @ crlf
         @ ''Content-Length: '' @ itoa (int (length body)) @ crlf
         @ ''Connection: close'' @ crlf @ crlf @ body)"

definition deny :: "64 word \<Rightarrow> gostring \<Rightarrow> nat \<Rightarrow> gostring \<Rightarrow> connect_event list" where
  "deny cid target status reason =
     [CWrite (deny_response status reason),
      CLog cid ''deny  %s status=%d reason=%q'' [target, itoa (int status), reason]]"

text \<open>\<open>handle\<close>: the connection takes the next number, the request is read under a deadline, and the
  deferred close of the client comes last on every path.\<close>

definition handle_body ::
  "(nat \<Rightarrow> nat) \<Rightarrow> connect_proxy \<Rightarrow> connect_world \<Rightarrow> connect_event list" where
  "handle_body uni p w =
     (let cid = cp_connID p + 1
      in CSetReadDeadline #
        (case cw_request w of
           Inl err \<Rightarrow> [CLog cid ''read request: %v'' [err]]
         | Inr (meth, target) \<Rightarrow> CClearReadDeadline #
             (if meth \<noteq> ''CONNECT'' then deny cid (meth @ '' '' @ target) 405 ''only CONNECT is supported''
              else case split_host_port target of
                None \<Rightarrow> deny cid target 400 ''bad host:port''
              | Some (host, port) \<Rightarrow>
                  if \<not> Contains uni (cp_allowlist p) host
                  then deny cid target 403 (''host '' @ host @ '' not in allowlist'')
                  else if port \<noteq> ''443'' \<and> port \<noteq> ''80''
                  then deny cid target 403 (''port '' @ port
                         @ '' not permitted (proxy handles 443/80; add host to no_proxy for direct access)'')
                  else CDial target #
                    (case cw_dial w target of
                       Some err \<Rightarrow> deny cid target 502 (''dial: '' @ err)
                     | None \<Rightarrow>
                         CWrite (''HTTP/1.1 200 Connection Established'' @ crlf @ crlf) #
                         (if \<not> cw_write_ok w then [CCloseUpstream, CLog cid ''write 200: %v'' []]
                          else CLog cid ''accept %s'' [target] #
                            (if cw_buffered w \<noteq> [] then
                               CFlush (cw_buffered w) #
                               (if \<not> cw_flush_ok w then [CCloseUpstream, CLog cid ''flush prelude: %v'' []]
                                else [CRelay, CLog cid ''close  %s'' [target]])
                             else [CRelay, CLog cid ''close  %s'' [target]]))))))"

definition handle :: "(nat \<Rightarrow> nat) \<Rightarrow> connect_proxy \<Rightarrow> connect_world \<Rightarrow> connect_event list" where
  "handle uni p w = handle_body uni p w @ [CCloseClient]"

text \<open>\<open>Serve\<close>: every accepted connection is handled until \<open>Accept\<close> fails; each sees the allowlist as
  it is when its host is checked.  The connections are listed in the order in which their
  goroutines take a number.\<close>

fun Serve :: "(nat \<Rightarrow> nat) \<Rightarrow> connect_proxy \<Rightarrow> (gostring + host_allowlist \<times> connect_world) list \<Rightarrow>
    connect_event list list \<times> gostring option" where
  "Serve uni p [] = ([], None)"
| "Serve uni p (Inl err # rest) = ([], Some err)"
| "Serve uni p (Inr (a, w) # rest) =
     (case Serve uni (p\<lparr>cp_connID := cp_connID p + 1\<rparr>) rest of
        (es, e) \<Rightarrow> (handle uni (p\<lparr>cp_allowlist := a\<rparr>) w # es, e))"

section \<open>What the lines of the file allow\<close>

text \<open>Stated on the text of a line, not on the entry that the code makes of it: a line that is neither
  blank nor a comment allows, without regard to case, the one host it names, or under \<open>*.d\<close> the hosts
  that have something before \<open>.d\<close> or are \<open>.d\<close> itself.\<close>

inductive line_allows :: "(nat \<Rightarrow> nat) \<Rightarrow> gostring \<Rightarrow> gostring \<Rightarrow> bool" for uni host line where
  named: "trim_space line = c # t \<Longrightarrow> c \<noteq> CHR ''#'' \<Longrightarrow> to_lower uni (c # t) = h \<Longrightarrow>
     (\<nexists>d. h = ''*.'' @ d) \<Longrightarrow> to_lower uni host = h \<Longrightarrow> line_allows uni host line"
| wildcard: "trim_space line = c # t \<Longrightarrow> c \<noteq> CHR ''#'' \<Longrightarrow> to_lower uni (c # t) = ''*.'' @ d \<Longrightarrow>
     to_lower uni host = sub @ ''.'' @ d \<Longrightarrow> line_allows uni host line"

inductive_cases line_allowsE: "line_allows uni host line"

lemma line_allows_iff:
  "line_allows uni host l \<longleftrightarrow> host_entry uni l = Exact (to_lower uni host)
     \<or> (\<exists>t. host_entry uni l = Suffix t \<and> suffix t (to_lower uni host))"
proof (cases "trim_space l")
  case Nil
  then show ?thesis by (auto simp: host_entry_def elim: line_allowsE)
next
  case (Cons c t)
  note t = Cons
  show ?thesis
  proof (cases "c = CHR ''#''")
    case True
    then show ?thesis using t by (auto simp: host_entry_def elim: line_allowsE)
  next
    case plain: False
    show ?thesis
    proof (cases "\<exists>d. to_lower uni (c # t) = ''*.'' @ d")
      case True
      then obtain d where d: "to_lower uni (c # t) = ''*.'' @ d" ..
      then have e: "host_entry uni l = Suffix (''.'' @ d)" using t plain by (simp add: host_entry_def)
      have "line_allows uni host l \<longleftrightarrow> (\<exists>sub. to_lower uni host = sub @ ''.'' @ d)"
        using t d plain by (auto elim!: line_allowsE intro: line_allows.wildcard [OF t plain d])
      then show ?thesis using e by (simp add: suffix_def)
    next
      case False
      then have e: "host_entry uni l = Exact (to_lower uni (c # t))"
        using t plain by (auto simp: host_entry_def prefix_def)
      have "line_allows uni host l \<longleftrightarrow> to_lower uni host = to_lower uni (c # t)"
        using t plain False by (auto elim!: line_allowsE intro: line_allows.named [OF t plain refl])
      then show ?thesis using e by auto
    qed
  qed
qed

lemma fold_entries:
  "fold (\<lambda>l. add_entry (host_entry uni l)) ls (hosts, sfx) = (hosts', sfx') \<Longrightarrow>
     (low \<in> set hosts' \<longleftrightarrow> low \<in> set hosts \<or> (\<exists>l \<in> set ls. host_entry uni l = Exact low))
   \<and> set sfx' = set sfx \<union> {t. \<exists>l \<in> set ls. host_entry uni l = Suffix t}"
proof (induction ls arbitrary: hosts sfx)
  case (Cons l ls)
  then show ?case by (cases "host_entry uni l") fastforce+
qed simp

lemma Contains_lines:
  assumes "fold (\<lambda>l. add_entry (host_entry uni l)) ls ([], []) = (hosts, sfx)"
  shows "Contains uni (a\<lparr>al_hosts := hosts, al_suffixes := sfx\<rparr>) host = (\<exists>l \<in> set ls. line_allows uni host l)"
proof -
  let ?low = "to_lower uni host"
  have "Contains uni (a\<lparr>al_hosts := hosts, al_suffixes := sfx\<rparr>) host
      \<longleftrightarrow> (\<exists>l \<in> set ls. host_entry uni l = Exact ?low)
        \<or> (\<exists>l \<in> set ls. \<exists>t. host_entry uni l = Suffix t \<and> suffix t ?low)"
    using fold_entries [OF assms, of ?low] by (auto simp: Contains_def Let_def list_ex_iff)
  also have "\<dots> \<longleftrightarrow> (\<exists>l \<in> set ls. line_allows uni host l)"
    unfolding line_allows_iff by blast
  finally show ?thesis .
qed

section \<open>What \<open>SplitHostPort\<close> accepts\<close>

lemma takeWhile_stop [simp]: "c \<notin> set a \<Longrightarrow> takeWhile (\<lambda>d. d \<noteq> c) (a @ c # b) = a"
  by (induction a) auto

lemma first_index_Some: "first_index c s = Some i \<longleftrightarrow> (\<exists>a b. s = a @ c # b \<and> c \<notin> set a \<and> length a = i)"
proof
  assume f: "first_index c s = Some i"
  then have c: "c \<in> set s" by (simp add: first_index_def split: if_splits)
  then obtain a b where "s = a @ c # b" "c \<notin> set a" by (meson split_list_first)
  moreover from this have "takeWhile (\<lambda>d. d \<noteq> c) s = a" by simp
  ultimately show "\<exists>a b. s = a @ c # b \<and> c \<notin> set a \<and> length a = i"
    using f by (auto simp: first_index_def)
next
  assume "\<exists>a b. s = a @ c # b \<and> c \<notin> set a \<and> length a = i"
  then show "first_index c s = Some i" by (auto simp: first_index_def)
qed

lemma last_index_Some: "last_index c s = Some i \<longleftrightarrow> (\<exists>a b. s = a @ c # b \<and> c \<notin> set b \<and> length a = i)"
proof
  assume f: "last_index c s = Some i"
  then have c: "c \<in> set s" by (simp add: last_index_def split: if_splits)
  then obtain a b where ab: "s = a @ c # b" "c \<notin> set b" by (meson split_list_last)
  then have "takeWhile (\<lambda>d. d \<noteq> c) (rev s) = rev b"
    using takeWhile_stop [of c "rev b" "rev a"] by simp
  then show "\<exists>a b. s = a @ c # b \<and> c \<notin> set b \<and> length a = i"
    using f ab by (auto simp: last_index_def)
next
  assume "\<exists>a b. s = a @ c # b \<and> c \<notin> set b \<and> length a = i"
  then obtain a b where "s = a @ c # b" "c \<notin> set b" "length a = i" by blast
  then show "last_index c s = Some i"
    using takeWhile_stop [of c "rev b" "rev a"] by (simp add: last_index_def)
qed

text \<open>\<open>host:port\<close> with a host without colon, or \<open>[host]:port\<close>.\<close>

definition host_port :: "gostring \<Rightarrow> gostring \<Rightarrow> gostring \<Rightarrow> bool" where
  "host_port host port target \<longleftrightarrow>
     CHR '':'' \<notin> set port
   \<and> (target = host @ '':'' @ port \<and> CHR '':'' \<notin> set host
      \<or> target = ''['' @ host @ '']:'' @ port \<and> CHR '']'' \<notin> set host)"

lemma split_host_port_shape:
  assumes "split_host_port s = Some (host, port)"
  shows "host_port host port s"
proof -
  obtain i where i: "last_index CHR '':'' s = Some i"
    using assms by (auto simp: split_host_port_def split: option.splits)
  then obtain a b where ab: "s = a @ CHR '':'' # b" "CHR '':'' \<notin> set b" "length a = i"
    by (auto simp: last_index_Some)
  show ?thesis
  proof (cases "hd s = CHR ''[''")
    case False
    then have "host = a \<and> port = b \<and> CHR '':'' \<notin> set a"
      using assms i ab by (auto simp: split_host_port_def Let_def split: if_splits)
    then show ?thesis using ab by (simp add: host_port_def)
  next
    case True
    then obtain e where e: "first_index CHR '']'' s = Some e" "e + 1 = i"
        "host = drop 1 (take e s)" "port = drop (i + 1) s"
      using assms i by (auto simp: split_host_port_def Let_def split: option.splits if_splits)
    then obtain a' b' where ab': "s = a' @ CHR '']'' # b'" "CHR '']'' \<notin> set a'" "length a' = e"
      by (auto simp: first_index_Some)
    have "s = (a' @ [CHR '']'']) @ b'" using ab' by simp
    moreover have "length (a' @ [CHR '']'']) = length a" using ab' ab e by simp
    ultimately have "a = a' @ [CHR '']'']" "b' = CHR '':'' # b"
      using ab(1) by (metis append_eq_append_conv)+
    moreover have "port = b" using e(4) ab by simp
    moreover have "a' \<noteq> []" using True ab' by auto
    then have "a' = CHR ''['' # host" using True e(3) ab' by (cases a') auto
    ultimately show ?thesis using ab ab' by (auto simp: host_port_def)
  qed
qed

section \<open>Properties\<close>

text \<open>C12. The CONNECT proxy dials only where it may: a connection is made only for the target of a
  CONNECT request that reads as host and port, whose host the allowlist contains and whose port
  is 443 or 80.\<close>

theorem connect_dials_allowed:
  assumes "CDial target \<in> set (handle uni p w)"
  shows "\<exists>host port. cw_request w = Inr (''CONNECT'', target) \<and> host_port host port target
    \<and> Contains uni (cp_allowlist p) host \<and> port \<in> {''443'', ''80''}"
proof -
  have deny: "CDial t \<notin> set (deny cid t' st re)" for cid t t' st re by (simp add: deny_def)
  from assms obtain meth t where r: "cw_request w = Inr (meth, t)"
    by (cases "cw_request w") (auto simp: handle_def handle_body_def Let_def)
  have c: "meth = ''CONNECT''"
    using assms r deny by (cases "meth = ''CONNECT''") (auto simp: handle_def handle_body_def Let_def)
  obtain host port where hp: "split_host_port t = Some (host, port)"
    using assms r c deny by (cases "split_host_port t") (auto simp: handle_def handle_body_def Let_def)
  have ok: "Contains uni (cp_allowlist p) host"
    using assms r c hp deny by (cases "Contains uni (cp_allowlist p) host") (auto simp: handle_def handle_body_def Let_def)
  have port: "port = ''443'' \<or> port = ''80''"
    using assms r c hp ok deny by (cases "port = ''443'' \<or> port = ''80''") (auto simp: handle_def handle_body_def Let_def)
  have "target = t"
    using assms r c hp ok port deny
    by (auto simp: handle_def handle_body_def Let_def split: option.splits if_splits)
  then show ?thesis using r c split_host_port_shape [OF hp] ok port by blast
qed

theorem connect_dials_allowed_witness:
  "\<exists>host port. host_port host port ''a.io:443'' \<and> port \<in> {''443'', ''80''}"
proof -
  let ?p = "\<lparr>cp_user = ''alice'', cp_allowlist = \<lparr>al_path = [], al_hosts = [], al_suffixes = [''.io'']\<rparr>, cp_connID = 0\<rparr>"
  let ?w = "\<lparr>cw_request = Inr (''CONNECT'', ''a.io:443''), cw_dial = (\<lambda>t. None), cw_write_ok = True,
     cw_buffered = [], cw_flush_ok = True\<rparr>"
  have "CDial ''a.io:443'' \<in> set (handle (\<lambda>r. r) ?p ?w)" by code_simp
  from connect_dials_allowed [OF this] show ?thesis by blast
qed

text \<open>C34. Reloading the allowlist either leaves it as it was, when the file cannot be opened or read
  or has an overlong line, or makes it contain exactly the hosts that some line of the file
  allows: under a plain line that host, without regard to case, under a line \<open>*.d\<close> every host that
  ends in \<open>.d\<close>, so not \<open>d\<close> itself; blank lines and comments allow nothing.\<close>

theorem Reload_contains:
  "case Reload uni read_file a of
     (a', ok) \<Rightarrow>
       if ok then \<exists>content ls. read_file (al_path a) = Some (content, True) \<and> scan_lines content = Some ls
              \<and> (\<forall>host. Contains uni a' host = (\<exists>l \<in> set ls. line_allows uni host l))
       else a' = a"
proof (cases "read_file (al_path a)")
  case None
  then show ?thesis by (simp add: Reload_def)
next
  case (Some r)
  obtain content whole where r: "r = (content, whole)" by fastforce
  show ?thesis
  proof (cases "whole \<and> scan_lines content \<noteq> None")
    case False
    then show ?thesis using Some r by (auto simp: Reload_def)
  next
    case True
    then obtain ls where ls: "scan_lines content = Some ls" by blast
    obtain hosts sfx where "fold (\<lambda>l. add_entry (host_entry uni l)) ls ([], []) = (hosts, sfx)" by fastforce
    then show ?thesis using Some r True ls Contains_lines by (auto simp: Reload_def)
  qed
qed

section \<open>Connection numbers\<close>

fun event_id :: "connect_event \<Rightarrow> 64 word option" where
  "event_id (CLog cid _ _) = Some cid"
| "event_id _ = None"

text \<open>The numbers under which a connection writes to the log.\<close>

definition log_ids :: "connect_event list \<Rightarrow> 64 word set" where
  "log_ids es = {cid. \<exists>e \<in> set es. event_id e = Some cid}"

lemma log_ids_simps [simp]:
  "log_ids [] = {}" "log_ids (e # es) = (case event_id e of Some cid \<Rightarrow> insert cid (log_ids es) | None \<Rightarrow> log_ids es)"
  "log_ids (es @ es') = log_ids es \<union> log_ids es'"
  by (auto simp: log_ids_def split: option.splits)

lemma handle_log_ids: "log_ids (handle uni p w) = {cp_connID p + 1}"
  by (auto simp: handle_def handle_body_def deny_def Let_def split: sum.split option.split)

lemma Serve_log_ids:
  assumes "Serve uni p xs = (ess, e)" "i < length ess"
  shows "log_ids (ess ! i) = {cp_connID p + of_nat (Suc i)}"
  using assms
proof (induction uni p xs arbitrary: ess i rule: Serve.induct)
  case (3 uni p a w rest)
  obtain es where es: "Serve uni (p\<lparr>cp_connID := cp_connID p + 1\<rparr>) rest = (es, e)"
      "ess = handle uni (p\<lparr>cp_allowlist := a\<rparr>) w # es"
    using 3(2) by (auto split: prod.splits)
  show ?case
  proof (cases i)
    case 0
    then show ?thesis using es(2) by (simp add: handle_log_ids)
  next
    case (Suc j)
    then show ?thesis using 3(1) [OF es(1), of j] 3(3) es(2) by (simp add: add.assoc)
  qed
qed auto

text \<open>C35. Every connection writes to the log under one number, and up to \<open>2^64\<close> connections no two of them
  share it; the counter may wrap around and may start anywhere.\<close>

theorem connection_ids_distinct:
  assumes "Serve uni p xs = (ess, e)" "length ess \<le> 2 ^ 64" "i < length ess" "j < length ess"
  shows "(\<exists>cid. log_ids (ess ! i) = {cid}) \<and> (log_ids (ess ! i) = log_ids (ess ! j) \<longleftrightarrow> i = j)"
proof -
  have "(of_nat i :: 64 word) = of_nat j \<longleftrightarrow> i = j"
    using assms(2-4) by (simp add: word_of_nat_eq_iff take_bit_nat_eq_self)
  then show ?thesis
    using Serve_log_ids [OF assms(1,3)] Serve_log_ids [OF assms(1,4)] by simp
qed

definition two_connections :: "(gostring + host_allowlist \<times> connect_world) list" where
  "two_connections =
     (let w = \<lparr>cw_request = Inl ''EOF'', cw_dial = (\<lambda>t. None), cw_write_ok = True, cw_buffered = [], cw_flush_ok = True\<rparr>;
          a = \<lparr>al_path = [], al_hosts = [], al_suffixes = []\<rparr>
      in [Inr (a, w), Inr (a, w), Inl ''closed''])"

theorem connection_ids_distinct_witness:
  "\<exists>ess. Serve (\<lambda>r. r) (NewConnectProxy ''alice'' \<lparr>al_path = [], al_hosts = [], al_suffixes = []\<rparr>)
       two_connections = (ess, Some ''closed'') \<and> log_ids (ess ! 0) \<noteq> log_ids (ess ! 1)"
proof -
  obtain ess where s: "Serve (\<lambda>r. r) (NewConnectProxy ''alice'' \<lparr>al_path = [], al_hosts = [], al_suffixes = []\<rparr>)
      two_connections = (ess, Some ''closed'')" "length ess = 2"
    by (simp add: two_connections_def Let_def)
  then show ?thesis using connection_ids_distinct [OF s(1), of 0 1] by simp
qed

end
