(* ===== verification/Peer.thy ===== *)
theory Peer
  imports Prelude "HOL-Library.Word"
begin

text \<open>
  The peer check of the Unix socket: \<open>internal/proxy/peer_linux.go\<close>, \<open>peer_darwin.go\<close>, and the
  listener of \<open>cmd/docker-proxy/main.go\<close> that hands out only connections whose peer is the
  user.  The system calls on a connection are a record of their outcomes.
\<close>

section \<open>The peer of a connection\<close>

type_synonym uid = "32 word"

record unix_conn =
  conn_name :: gostring
  raw_ok :: bool
  control_ok :: bool
  ucred :: "uid option"
  xucred :: "uid option"

definition GetPeerUID :: "unix_conn \<Rightarrow> uid \<times> bool" where
  "GetPeerUID conn =
     (if \<not> raw_ok conn then (0, False)
      else case (if control_ok conn then ucred conn else None) of
             None \<Rightarrow> (0, False)
           | Some peerUID \<Rightarrow> (peerUID, True))"

definition GetPeerUID_darwin :: "unix_conn \<Rightarrow> uid \<times> bool" where
  "GetPeerUID_darwin conn =
     (if \<not> raw_ok conn then (0, False)
      else case (if control_ok conn then xucred conn else None) of
             None \<Rightarrow> (0, False)
           | Some peerUID \<Rightarrow> (peerUID, True))"

section \<open>The listener\<close>

datatype incoming = AcceptError gostring | OtherConn gostring | UnixConn unix_conn

datatype listener_event =
    PeerBlocked uid uid
  | CloseConn gostring

record peer_listener =
  expectedUID :: uid
  listener_user :: gostring

text \<open>The lookup is a parameter: each platform has its own.  The stream of what the inner \<open>Accept\<close>
  returns is a list; at its end the loop is still waiting.\<close>

fun Accept :: "(unix_conn \<Rightarrow> uid \<times> bool) \<Rightarrow> peer_listener \<Rightarrow> incoming list \<Rightarrow>
    listener_event list \<times> ((gostring + incoming) \<times> incoming list) option" where
  "Accept lookup l [] = ([], None)"
| "Accept lookup l (AcceptError err # rest) = ([], Some (Inl err, rest))"
| "Accept lookup l (OtherConn c # rest) = ([], Some (Inr (OtherConn c), rest))"
| "Accept lookup l (UnixConn uc # rest) =
     (case lookup uc of
        (uid, ok) \<Rightarrow>
          if \<not> ok then ([], Some (Inr (UnixConn uc), rest))
          else if uid \<noteq> expectedUID l
          then (case Accept lookup l rest of
                  (es, res) \<Rightarrow> (PeerBlocked uid (expectedUID l) # CloseConn (conn_name uc) # es, res))
          else ([], Some (Inr (UnixConn uc), rest)))"

section \<open>What a listener admits\<close>

text \<open>A connection of another user: its peer is known and is not the expected one.\<close>

fun foreign :: "(unix_conn \<Rightarrow> uid \<times> bool) \<Rightarrow> peer_listener \<Rightarrow> incoming \<Rightarrow> bool" where
  "foreign lookup l (UnixConn uc) \<longleftrightarrow> (case lookup uc of (uid, ok) \<Rightarrow> ok \<and> uid \<noteq> expectedUID l)"
| "foreign lookup l _ \<longleftrightarrow> False"

fun turn_away :: "(unix_conn \<Rightarrow> uid \<times> bool) \<Rightarrow> peer_listener \<Rightarrow> incoming \<Rightarrow> listener_event list" where
  "turn_away lookup l (UnixConn uc) = [PeerBlocked (fst (lookup uc)) (expectedUID l), CloseConn (conn_name uc)]"
| "turn_away lookup l _ = []"

fun outcome :: "incoming \<Rightarrow> gostring + incoming" where
  "outcome (AcceptError err) = Inl err"
| "outcome c = Inr c"

text \<open>C36. The listener turns away and closes exactly the connections of other users, in order, and
  returns the first error or the first connection that is not one of them: a connection whose
  peer is the expected user, whose peer cannot be found out, or that is not a Unix socket.\<close>

theorem Accept_first_admissible:
  "Accept lookup l xs =
     (concat (map (turn_away lookup l) (takeWhile (foreign lookup l) xs)),
      case dropWhile (foreign lookup l) xs of [] \<Rightarrow> None | x # rest \<Rightarrow> Some (outcome x, rest))"
  by (induction lookup l xs rule: Accept.induct) (auto split: prod.splits)

text \<open>A Unix connection that is handed out, and whose peer the platform's lookup names, comes from the
  expected user.\<close>

theorem admitted_peer:
  assumes "Accept lookup l xs = (es, Some (Inr (UnixConn uc), rest))"
  shows "case lookup uc of (peer, ok) \<Rightarrow> if ok then peer = expectedUID l else True"
proof -
  have "\<not> foreign lookup l (UnixConn uc)"
    using assms
  proof (induction xs arbitrary: es)
    case (Cons x xs)
    then show ?case by (cases x) (auto split: prod.splits if_splits)
  qed simp
  then show ?thesis by (auto split: prod.splits)
qed

theorem admitted_peer_witness:
  "\<exists>uc. Accept GetPeerUID \<lparr>expectedUID = 501, listener_user = ''alice''\<rparr>
       [UnixConn \<lparr>conn_name = ''a'', raw_ok = True, control_ok = True, ucred = Some 502, xucred = None\<rparr>,
        UnixConn \<lparr>conn_name = ''b'', raw_ok = True, control_ok = True, ucred = Some 501, xucred = None\<rparr>]
       = ([PeerBlocked 502 501, CloseConn ''a''], Some (Inr (UnixConn uc), []))
     \<and> (case GetPeerUID uc of (peer, ok) \<Rightarrow> if ok then peer = 501 else True)"
proof -
  let ?l = "\<lparr>expectedUID = 501, listener_user = ''alice''\<rparr>"
  let ?b = "\<lparr>conn_name = ''b'', raw_ok = True, control_ok = True, ucred = Some 501, xucred = None\<rparr>"
  let ?xs = "[UnixConn \<lparr>conn_name = ''a'', raw_ok = True, control_ok = True, ucred = Some 502, xucred = None\<rparr>,
        UnixConn ?b]"
  have a: "Accept GetPeerUID ?l ?xs
      = ([PeerBlocked 502 501, CloseConn ''a''], Some (Inr (UnixConn ?b), []))"
    by (simp add: GetPeerUID_def)
  from admitted_peer [OF a] a show ?thesis by auto
qed

end
