(* ===== verification/Startup.thy ===== *)
theory Startup
  imports Connect Peer
begin

text \<open>
  \<open>cmd/docker-proxy/main.go\<close>: the start of the program, as the list of events up to the point where
  the listeners are served (or the program exits), with the operating system as the record \<open>os\<close>
  of what each call answers.  The goroutines for the signals and the blocking of \<open>Serve\<close> are
  events; what they do is modelled apart (\<open>on_sighup\<close>, \<open>Accept\<close>, \<open>ServeHTTP\<close>, theory \<open>Lifecycle\<close>).
  Messages are complete but for the prefix \<open>[user]\<close> of the log lines; the texts of the
  system's errors are a parameter.
\<close>

section \<open>Options and the operating system\<close>

record flags =
  f_user :: gostring
  f_socket :: gostring
  f_upstream :: gostring
  f_insecure :: bool
  f_tcp_port :: int
  f_tls_dir :: gostring
  f_init_tls :: bool
  f_connect_port :: int
  f_allowlist :: gostring

datatype client_auth = NoClientCert | RequireAndVerifyClientCert

record tls_config =
  tls_ca :: gostring
  tls_client_auth :: client_auth
  tls_min_version :: nat

datatype stat_result = StatError gostring | NoStat | StatUid uid

record os =
  os_lookup :: "gostring \<Rightarrow> gostring option"
  os_getuid :: int
  os_stat :: "gostring \<Rightarrow> stat_result"
  os_umask :: nat
  os_listen_unix :: bool
  os_chown :: bool
  os_chmod :: bool
  os_read :: file_reader
  os_listen_tcp :: "int \<Rightarrow> bool"
  os_has_certs :: "gostring \<Rightarrow> bool"
  os_key_pair :: bool
  os_error :: "gostring \<Rightarrow> gostring"

datatype main_event =
    Stderr gostring
  | Usage
  | Logf gostring
  | Exit nat
  | Remove gostring
  | SetUmask nat
  | ListenUnix gostring
  | Chown gostring int
  | Chmod gostring nat
  | CloseListener
  | NotifyTerm
  | Cleanup
  | ListenTcp int
  | SetConnectListener int
  | ServeConnect host_allowlist
  | NotifyHup
  | ServeTcp "tls_config option"
  | ServeUnix peer_listener

definition octal :: "nat \<Rightarrow> nat \<Rightarrow> nat \<Rightarrow> nat" where
  "octal a b c = 64 * a + 8 * b + c"

text \<open>A stage of \<open>main\<close>: its events, and a result unless it exits the program.\<close>

type_synonym 'a stage = "main_event list \<times> 'a option"

definition proceed :: "main_event list \<Rightarrow> 'a \<Rightarrow> 'a stage" where
  "proceed es x = (es, Some x)"

definition fatal :: "main_event list \<Rightarrow> gostring \<Rightarrow> nat \<Rightarrow> 'a stage" where
  "fatal es msg code = (Stderr msg # es @ [Exit code], None)"

definition and_then :: "'a stage \<Rightarrow> ('a \<Rightarrow> 'b stage) \<Rightarrow> 'b stage" where
  "and_then m f = (case m of (es, None) \<Rightarrow> (es, None) | (es, Some x) \<Rightarrow> (case f x of (es', r) \<Rightarrow> (es @ es', r)))"

definition decimal :: "int \<Rightarrow> gostring" where
  "decimal n = (if n < 0 then CHR ''-'' # itoa (- n) else itoa n)"

section \<open>User and directory\<close>

text \<open>\<open>strconv.Atoi\<close>: the value, and whether there was no error; on overflow the value is the bound.\<close>

definition atoi :: "gostring \<Rightarrow> int \<times> bool" where
  "atoi s =
     (let neg = prefix ''-'' s;
          ds = (if neg \<or> prefix ''+'' s then drop 1 s else s);
          v = digits_val ds
      in if ds = [] \<or> \<not> list_all is_digit ds then (0, False)
         else if neg then (if 2 ^ 63 < v then (- (2 ^ 63), False) else (- v, True))
         else if 2 ^ 63 \<le> v then (2 ^ 63 - 1, False) else (v, True))"

definition resolveUID :: "os \<Rightarrow> gostring \<Rightarrow> bool \<Rightarrow> gostring + int" where
  "resolveUID sys username insecure =
     (case os_lookup sys username of
        Some u \<Rightarrow> Inr (fst (atoi u))
      | None \<Rightarrow>
          if insecure then Inr (os_getuid sys)
          else Inl (''FATAL: user '' @ [dquote] @ username @ [dquote] @ '' not found''))"

text \<open>\<open>filepath.Dir\<close>.\<close>

definition dir_of :: "gostring \<Rightarrow> gostring" where
  "dir_of p = clean (rev (dropWhile (\<lambda>c. c \<noteq> CHR ''/'') (rev p)))"

definition verifyParentRootOwned :: "os \<Rightarrow> gostring \<Rightarrow> gostring option" where
  "verifyParentRootOwned sys socketPath =
     (let parent = dir_of socketPath
      in case os_stat sys parent of
           StatError err \<Rightarrow> Some (''FATAL: stat '' @ parent @ '': '' @ err)
         | NoStat \<Rightarrow> Some (''FATAL: '' @ parent @ '': stat unavailable'')
         | StatUid owner \<Rightarrow>
             if owner \<noteq> 0
             then Some (''FATAL: '' @ parent @ '' is not root-owned (uid='' @ itoa (uint owner)
                        @ '') -- refusing to start'')
             else None)"

section \<open>TLS\<close>

definition join_path :: "gostring \<Rightarrow> gostring \<Rightarrow> gostring" where
  "join_path dir name = (if dir = [] then clean name else clean (dir @ ''/'' @ name))"

definition loadServerTLS :: "os \<Rightarrow> gostring \<Rightarrow> gostring + tls_config" where
  "loadServerTLS sys certDir =
     (case os_read sys (join_path certDir ''ca.pem'') of
        Some (caPEM, True) \<Rightarrow>
          if \<not> os_has_certs sys caPEM then Inl ''ca.pem contains no certs''
          else if \<not> os_key_pair sys then Inl (''load server cert/key: '' @ os_error sys ''x509'')
          else Inr \<lparr>tls_ca = caPEM, tls_client_auth = RequireAndVerifyClientCert, tls_min_version = 0x0303\<rparr>
      | _ \<Rightarrow> Inl (''read ca.pem: '' @ os_error sys ''read''))"

section \<open>The stages of main\<close>

definition check_flags :: "flags \<Rightarrow> unit stage" where
  "check_flags f =
     (if f_user f = [] \<or> f_socket f = []
      then fatal [Usage] ''FATAL: --user and --socket are required'' 2
      else proceed [] ())"

definition find_user :: "flags \<Rightarrow> os \<Rightarrow> int stage" where
  "find_user f sys =
     (case resolveUID sys (f_user f) (f_insecure f) of
        Inl err \<Rightarrow> fatal [] err 1
      | Inr targetUID \<Rightarrow>
          if \<not> f_insecure f then
            (case verifyParentRootOwned sys (f_socket f) of
               Some err \<Rightarrow> fatal [] err 1
             | None \<Rightarrow> proceed [] targetUID)
          else proceed [] targetUID)"

definition bind_socket :: "flags \<Rightarrow> os \<Rightarrow> int \<Rightarrow> unit stage" where
  "bind_socket f sys targetUID =
     (let s = f_socket f;
          bound = [Remove s, SetUmask (octal 0 7 7), ListenUnix s, SetUmask (os_umask sys)]
      in if \<not> os_listen_unix sys then (bound @ [Stderr (''FATAL: net.Listen: '' @ os_error sys ''listen''), Exit 1], None)
         else let owned = (if f_insecure f then bound else bound @ [Chown s targetUID])
              in if \<not> f_insecure f \<and> \<not> os_chown sys
                 then (owned @ [Stderr (''FATAL: chown '' @ s @ '' -> '' @ decimal targetUID @ '': '' @ os_error sys ''chown''),
                         CloseListener, Exit 1], None)
                 else if \<not> os_chmod sys
                 then (owned @ [Chmod s (octal 6 0 0), Stderr (''FATAL: chmod '' @ s @ '' 600: '' @ os_error sys ''chmod''),
                         CloseListener, Exit 1], None)
                 else proceed (owned @ [Chmod s (octal 6 0 0), Logf (''proxy: '' @ s @ '' (uid='' @ decimal targetUID
                           @ '', mode 600) -> '' @ f_upstream f)]) ())"

definition size_text :: "host_allowlist \<Rightarrow> gostring" where
  "size_text allow =
     (case Size allow of (exact, suf) \<Rightarrow> itoa (int exact) @ '' exact + '' @ itoa (int suf) @ '' suffix'')"

definition start_connect :: "flags \<Rightarrow> os \<Rightarrow> (nat \<Rightarrow> nat) \<Rightarrow> unit stage" where
  "start_connect f sys uni =
     (if f_connect_port f \<le> 0 then proceed [] ()
      else if f_allowlist f = []
      then fatal [Cleanup] ''FATAL: --connect-port requires --connect-allowlist'' 2
      else case LoadHostAllowlist uni (os_read sys) (f_allowlist f) of
             None \<Rightarrow> fatal [Cleanup] (''FATAL: load allowlist '' @ f_allowlist f @ '': '' @ os_error sys ''allowlist'') 1
           | Some allow \<Rightarrow>
               if \<not> os_listen_tcp sys (f_connect_port f)
               then fatal [Cleanup] (''FATAL: CONNECT listen: '' @ os_error sys ''listen'') 1
               else proceed [ListenTcp (f_connect_port f), SetConnectListener (f_connect_port f),
                      Logf (''connect: 127.0.0.1:'' @ decimal (f_connect_port f) @ '' (allowlist='' @ f_allowlist f
                        @ '', '' @ size_text allow @ '')''),
                      ServeConnect allow, NotifyHup] ())"

definition em_dash :: gostring where
  "em_dash = [CHR 0xE2, CHR 0x80, CHR 0x94]"

definition start_tcp :: "flags \<Rightarrow> os \<Rightarrow> unit stage" where
  "start_tcp f sys =
     (if f_tcp_port f \<le> 0 then proceed [] ()
      else if \<not> os_listen_tcp sys (f_tcp_port f) then fatal [Cleanup] (''FATAL: TCP listen: '' @ os_error sys ''listen'') 1
      else if f_insecure f \<and> f_tls_dir f = []
      then proceed [ListenTcp (f_tcp_port f), Logf (''proxy: TCP 127.0.0.1:'' @ decimal (f_tcp_port f)
                      @ '' (PLAINTEXT '' @ em_dash @ '' insecure-skip-checks only)''), ServeTcp None] ()
      else if f_tls_dir f \<noteq> [] then
        (case loadServerTLS sys (f_tls_dir f) of
           Inl err \<Rightarrow> and_then (proceed [ListenTcp (f_tcp_port f)] ())
                        (\<lambda>_. fatal [Cleanup] (''FATAL: TLS config: '' @ err) 1)
         | Inr tlsCfg \<Rightarrow> proceed [ListenTcp (f_tcp_port f), Logf (''proxy: TCP 127.0.0.1:'' @ decimal (f_tcp_port f)
                             @ '' (TLS, mutual auth, certs from '' @ f_tls_dir f @ '')''), ServeTcp (Some tlsCfg)] ())
      else and_then (proceed [ListenTcp (f_tcp_port f)] ())
             (\<lambda>_. fatal [Cleanup]
                ''FATAL: --tcp-port requires --tls-cert-dir (or --insecure-skip-checks for testing)'' 1))"

text \<open>\<open>main\<close> without \<open>--init-tls\<close> (theory \<open>TlsInit\<close>).\<close>

definition main_stages :: "flags \<Rightarrow> os \<Rightarrow> (nat \<Rightarrow> nat) \<Rightarrow> unit stage" where
  "main_stages f sys uni =
     and_then (check_flags f) (\<lambda>_.
     and_then (find_user f sys) (\<lambda>targetUID.
     and_then (bind_socket f sys targetUID) (\<lambda>_.
     and_then (proceed [NotifyTerm] ()) (\<lambda>_.
     and_then (start_connect f sys uni) (\<lambda>_.
     and_then (start_tcp f sys) (\<lambda>_.
     proceed [ServeUnix \<lparr>expectedUID = word_of_int targetUID, listener_user = f_user f\<rparr>, Cleanup] ()))))))"

definition main :: "flags \<Rightarrow> os \<Rightarrow> (nat \<Rightarrow> nat) \<Rightarrow> main_event list" where
  "main f sys uni = fst (main_stages f sys uni)"

text \<open>\<open>SIGHUP\<close>: each signal reloads the allowlist; a failed reload is logged and changes nothing.\<close>

definition on_sighup :: "(nat \<Rightarrow> nat) \<Rightarrow> file_reader \<Rightarrow> host_allowlist \<Rightarrow> host_allowlist \<times> main_event list" where
  "on_sighup uni read_file allow =
     (case Reload uni read_file allow of
        (allow', ok) \<Rightarrow>
          if \<not> ok then (allow', [Logf ''connect: SIGHUP reload failed: %v''])
          else (allow', [Logf (''connect: SIGHUP reloaded allowlist ('' @ size_text allow' @ '')'')]))"

section \<open>Events of stages\<close>

lemma and_then_Some: "snd (and_then m f) = Some y \<longleftrightarrow> (\<exists>x. snd m = Some x \<and> snd (f x) = Some y)"
  by (auto simp: and_then_def split: prod.splits option.splits)

lemma and_then_events:
  "fst (and_then m f) = fst m @ (case snd m of None \<Rightarrow> [] | Some x \<Rightarrow> fst (f x))"
  by (simp add: and_then_def split: prod.split option.split)

lemma and_then_later:
  "e \<in> set (fst (and_then m f)) \<Longrightarrow> e \<notin> set (fst m) \<Longrightarrow> \<exists>x. snd m = Some x \<and> e \<in> set (fst (f x))"
  by (cases "snd m") (simp_all add: and_then_events)

lemma stage_simps [simp]:
  "fst (proceed es x) = es" "snd (proceed es x) = Some x"
  "fst (fatal es msg code) = Stderr msg # es @ [Exit code]" "snd (fatal es msg code) = None"
  by (simp_all add: proceed_def fatal_def)

definition serves :: "main_event \<Rightarrow> bool" where
  "serves e \<longleftrightarrow> (case e of ServeUnix _ \<Rightarrow> True | ServeTcp _ \<Rightarrow> True | _ \<Rightarrow> False)"

lemma no_serving:
  assumes "serves e"
  shows "e \<notin> set (fst (check_flags f))" "e \<notin> set (fst (find_user f sys))"
    "e \<notin> set (fst (bind_socket f sys uid))" "e \<notin> set (fst (start_connect f sys uni))"
  using assms
  by (auto simp: serves_def check_flags_def find_user_def bind_socket_def start_connect_def Let_def
      split: sum.splits option.splits if_splits)

lemma start_tcp_serves:
  assumes "ServeTcp cfg \<in> set (fst (start_tcp f sys))"
  shows "case cfg of
      None \<Rightarrow> f_insecure f \<and> f_tls_dir f = []
    | Some c \<Rightarrow> loadServerTLS sys (f_tls_dir f) = Inr c"
  using assms
  by (auto simp: start_tcp_def and_then_events split: sum.splits if_splits)

lemma start_tcp_not_unix: "ServeUnix l \<notin> set (fst (start_tcp f sys))"
  by (auto simp: start_tcp_def and_then_events split: sum.splits)

text \<open>The stages that a served listener has behind it.\<close>

lemma and_then_proceed [simp]: "and_then (proceed es x) g = (es @ fst (g x), snd (g x))"
  by (simp add: and_then_def proceed_def split: prod.split)

text \<open>What follows the resolution of the user: nothing before it emits an event that is not an error.\<close>

definition serving_stages :: "flags \<Rightarrow> os \<Rightarrow> (nat \<Rightarrow> nat) \<Rightarrow> int \<Rightarrow> unit stage" where
  "serving_stages f sys uni uid =
     and_then (start_connect f sys uni) (\<lambda>_. and_then (start_tcp f sys) (\<lambda>_.
       proceed [ServeUnix \<lparr>expectedUID = word_of_int uid, listener_user = f_user f\<rparr>, Cleanup] ()))"

lemma main_cases:
  obtains (refused) msg es code where "main f sys uni = Stderr msg # es @ [Exit code]" "es \<in> {[], [Usage]}"
  | (bound) uid where "f_user f \<noteq> []" "f_socket f \<noteq> []" "snd (find_user f sys) = Some uid"
      "main f sys uni = fst (bind_socket f sys uid)
         @ (if snd (bind_socket f sys uid) = None then []
            else NotifyTerm # fst (serving_stages f sys uni uid))"
proof (cases "f_user f = [] \<or> f_socket f = []")
  case True
  then have "check_flags f = fatal [Usage] ''FATAL: --user and --socket are required'' 2"
    by (simp only: check_flags_def if_True)
  then show thesis using refused [of _ "[Usage]" 2] by (simp add: main_def main_stages_def and_then_events)
next
  case named: False
  then have c: "check_flags f = proceed [] ()" by (simp add: check_flags_def)
  show thesis
  proof (cases "snd (find_user f sys)")
    case None
    then have "\<exists>err. find_user f sys = fatal [] err 1"
      by (auto simp: find_user_def split: sum.splits option.splits if_splits)
    then show thesis using refused [of _ "[]"] c by (auto simp: main_def main_stages_def and_then_events)
  next
    case (Some uid)
    then have "fst (find_user f sys) = []"
      by (auto simp: find_user_def split: sum.splits option.splits if_splits)
    then show thesis using bound [of uid] named Some c
      by (auto simp: main_def main_stages_def and_then_events serving_stages_def split: option.splits)
  qed
qed

lemma serving_stages_events:
  "fst (serving_stages f sys uni uid) = fst (start_connect f sys uni)
     @ (if snd (start_connect f sys uni) = None then []
        else fst (start_tcp f sys)
          @ (if snd (start_tcp f sys) = None then []
             else [ServeUnix \<lparr>expectedUID = word_of_int uid, listener_user = f_user f\<rparr>, Cleanup]))"
  by (auto simp: serving_stages_def and_then_events split: option.split)

lemma main_stages_served:
  assumes "serves e" "e \<in> set (main f sys uni)"
  obtains uid bs where "f_user f \<noteq> []" "f_socket f \<noteq> []" "snd (find_user f sys) = Some uid"
    "bind_socket f sys uid = (bs, Some ())" "snd (start_connect f sys uni) = Some ()"
    "prefix bs (main f sys uni)"
    "e \<in> set (fst (start_tcp f sys)) \<or> snd (start_tcp f sys) = Some ()
       \<and> e = ServeUnix \<lparr>expectedUID = word_of_int uid, listener_user = f_user f\<rparr>"
proof (cases rule: main_cases [of f sys uni])
  case (refused msg es code)
  then show thesis using assms by (auto simp: serves_def)
next
  case (bound uid)
  note no = no_serving [OF assms(1)]
  have e: "e \<noteq> NotifyTerm" "e \<noteq> Cleanup" using assms(1) by (auto simp: serves_def)
  from assms(2) bound(4) no(3) [of f sys uid] e obtain bs where b: "bind_socket f sys uid = (bs, Some ())"
      and s: "e \<in> set (fst (serving_stages f sys uni uid))"
    by (cases "bind_socket f sys uid") (auto split: if_splits)
  from s no(4) [of f sys uni] have c: "snd (start_connect f sys uni) = Some ()"
    by (auto simp: serving_stages_events split: if_splits)
  then have "e \<in> set (fst (start_tcp f sys)) \<or> snd (start_tcp f sys) = Some ()
       \<and> e = ServeUnix \<lparr>expectedUID = word_of_int uid, listener_user = f_user f\<rparr>"
    using s no(4) [of f sys uni] e by (auto simp: serving_stages_events split: if_splits)
  then show thesis using that bound b c by (simp add: prefix_def)
qed

lemma find_user_Some:
  "snd (find_user f sys) = Some uid \<Longrightarrow>
     resolveUID sys (f_user f) (f_insecure f) = Inr uid
   \<and> (if f_insecure f then True else verifyParentRootOwned sys (f_socket f) = None)"
  by (auto simp: find_user_def split: sum.splits option.splits if_splits)

lemma bind_socket_Some:
  "bind_socket f sys uid = (bs, Some ()) \<Longrightarrow>
     os_listen_unix sys \<and> os_chmod sys \<and> (if f_insecure f then True else os_chown sys)
   \<and> prefix ([Remove (f_socket f), SetUmask (octal 0 7 7), ListenUnix (f_socket f), SetUmask (os_umask sys)]
        @ (if f_insecure f then [] else [Chown (f_socket f) uid]) @ [Chmod (f_socket f) (octal 6 0 0)]) bs"
  by (auto simp: bind_socket_def proceed_def Let_def split: if_splits)

lemma main_unix_listener:
  assumes "ServeUnix l \<in> set (main f sys uni)"
  obtains uid bs where "f_user f \<noteq> []" "resolveUID sys (f_user f) (f_insecure f) = Inr uid"
    "if f_insecure f then True else verifyParentRootOwned sys (f_socket f) = None"
    "l = \<lparr>expectedUID = word_of_int uid, listener_user = f_user f\<rparr>"
    "bind_socket f sys uid = (bs, Some ())" "prefix bs (main f sys uni)"
proof -
  have "serves (ServeUnix l)" by (simp add: serves_def)
  from this assms obtain uid bs where u: "f_user f \<noteq> []" "snd (find_user f sys) = Some uid"
    and b: "bind_socket f sys uid = (bs, Some ())" "prefix bs (main f sys uni)"
    and l: "ServeUnix l \<in> set (fst (start_tcp f sys)) \<or> snd (start_tcp f sys) = Some ()
       \<and> ServeUnix l = ServeUnix \<lparr>expectedUID = word_of_int uid, listener_user = f_user f\<rparr>"
    by (rule main_stages_served)
  from l have "l = \<lparr>expectedUID = word_of_int uid, listener_user = f_user f\<rparr>"
    using start_tcp_not_unix by simp
  then show thesis using that u b find_user_Some [OF u(2)] by blast
qed

lemma atoi_itoa:
  assumes "0 \<le> u" "u < 2 ^ 63"
  shows "atoi (itoa u) = (u, True)"
proof -
  obtain c s where cs: "itoa u = c # s" by (cases "itoa u") auto
  have "list_all is_digit (c # s)" using itoa_digits [OF assms(1)] cs by simp
  then have "c \<noteq> CHR ''-''" "c \<noteq> CHR ''+''" by (auto simp: is_digit_def in_range_def)
  then show ?thesis
    using assms cs itoa_digits [OF assms(1)] digits_val_itoa [OF assms(1)] by (simp add: atoi_def Let_def)
qed

section \<open>Properties\<close>

text \<open>C13. The Unix socket is served only when it is safe to: the user resolved to a uid, the listener
  expects that uid (as 32 bits), and as the first things the program did, it bound the socket under umask
  077, restored the umask and set the mode to 600, with the listen and the change of mode successful.
  Outside \<open>--insecure-skip-checks\<close> also the directory of the socket is owned by root, and the socket
  was made over to the user, with success, before its mode was set; with the option both are
  skipped.\<close>

theorem main_serves_unix:
  assumes "ServeUnix l \<in> set (main f sys uni)"
  shows "\<exists>uid. resolveUID sys (f_user f) (f_insecure f) = Inr uid
    \<and> l = \<lparr>expectedUID = word_of_int uid, listener_user = f_user f\<rparr>
    \<and> (if f_insecure f then True else verifyParentRootOwned sys (f_socket f) = None \<and> os_chown sys)
    \<and> os_listen_unix sys \<and> os_chmod sys
    \<and> prefix ([Remove (f_socket f), SetUmask (octal 0 7 7), ListenUnix (f_socket f), SetUmask (os_umask sys)]
        @ (if f_insecure f then [] else [Chown (f_socket f) uid]) @ [Chmod (f_socket f) (octal 6 0 0)])
       (main f sys uni)"
proof -
  from assms obtain uid bs where u: "resolveUID sys (f_user f) (f_insecure f) = Inr uid"
    "if f_insecure f then True else verifyParentRootOwned sys (f_socket f) = None"
    "l = \<lparr>expectedUID = word_of_int uid, listener_user = f_user f\<rparr>"
    and b: "bind_socket f sys uid = (bs, Some ())" "prefix bs (main f sys uni)"
    by (rule main_unix_listener)
  from bind_socket_Some [OF b(1)] show ?thesis using u b(2) by (auto intro: prefix_order.trans)
qed

text \<open>The uid that the listener expects is the one of the user, without loss: when the user database
  gives the user a uid of 32 bits, in decimal, the expected uid is that number.\<close>

theorem expected_uid_exact:
  assumes "ServeUnix l \<in> set (main f sys uni)" "os_lookup sys (f_user f) = Some (itoa u)" "0 \<le> u" "u < 2 ^ 32"
  shows "uint (expectedUID l) = u"
proof -
  from assms(1) obtain uid where "resolveUID sys (f_user f) (f_insecure f) = Inr uid"
    "l = \<lparr>expectedUID = word_of_int uid, listener_user = f_user f\<rparr>"
    by (rule main_unix_listener)
  moreover have "fst (atoi (itoa u)) = u" using atoi_itoa [of u] assms(3,4) by simp
  ultimately show ?thesis
    using assms(2-4) by (simp add: resolveUID_def uint_word_of_int)
qed

text \<open>C37. The TCP port never serves clients without a certificate in production: plaintext only under
  \<open>--insecure-skip-checks\<close> without a certificate directory; in every other case the listener
  demands and verifies a client certificate and speaks TLS 1.2 or newer.\<close>

theorem main_serves_tcp:
  assumes "ServeTcp cfg \<in> set (main f sys uni)"
  shows "case cfg of
      None \<Rightarrow> f_insecure f \<and> f_tls_dir f = []
    | Some c \<Rightarrow> tls_client_auth c = RequireAndVerifyClientCert \<and> tls_min_version c = 0x0303"
proof -
  have s: "serves (ServeTcp cfg)" by (simp add: serves_def)
  have "ServeTcp cfg \<in> set (fst (start_tcp f sys))"
    by (rule main_stages_served [OF s assms]) simp
  from start_tcp_serves [OF this] show ?thesis
    by (cases cfg) (auto simp: loadServerTLS_def split: option.splits if_splits bool.splits)
qed

definition plain_os :: os where
  "plain_os =
     \<lparr>os_lookup = (\<lambda>u. Some ''501''), os_getuid = 0, os_stat = (\<lambda>p. StatUid 0), os_umask = 18,
       os_listen_unix = True, os_chown = True, os_chmod = True, os_read = (\<lambda>p. Some (''pem'', True)),
       os_listen_tcp = (\<lambda>p. True), os_has_certs = (\<lambda>p. True), os_key_pair = True,
       os_error = (\<lambda>op. [])\<rparr>"

definition plain_flags :: flags where
  "plain_flags =
     \<lparr>f_user = ''alice'', f_socket = ''/s/alice.sock'', f_upstream = ''/d.sock'', f_insecure = False,
       f_tcp_port = 1, f_tls_dir = ''/t'', f_init_tls = False, f_connect_port = 0, f_allowlist = []\<rparr>"

theorem main_serves_unix_witness:
  "\<exists>l. ServeUnix l \<in> set (main plain_flags plain_os (\<lambda>r. r)) \<and> expectedUID l = 501"
proof -
  let ?l = "\<lparr>expectedUID = 501, listener_user = ''alice''\<rparr>"
  have "ServeUnix ?l \<in> set (main plain_flags plain_os (\<lambda>r. r))" by code_simp
  from main_serves_unix [OF this] this show ?thesis by auto
qed

theorem main_serves_tcp_witness:
  "\<exists>c. ServeTcp (Some c) \<in> set (main plain_flags plain_os (\<lambda>r. r))
     \<and> tls_client_auth c = RequireAndVerifyClientCert"
proof -
  let ?c = "\<lparr>tls_ca = ''pem'', tls_client_auth = RequireAndVerifyClientCert, tls_min_version = 0x0303\<rparr>"
  have "ServeTcp (Some ?c) \<in> set (main plain_flags plain_os (\<lambda>r. r))" by code_simp
  from main_serves_tcp [OF this] this show ?thesis by auto
qed

theorem expected_uid_exact_witness:
  "\<exists>l. ServeUnix l \<in> set (main plain_flags plain_os (\<lambda>r. r)) \<and> uint (expectedUID l) = 501"
proof -
  let ?l = "\<lparr>expectedUID = 501, listener_user = ''alice''\<rparr>"
  have s: "ServeUnix ?l \<in> set (main plain_flags plain_os (\<lambda>r. r))" by code_simp
  have "itoa 501 = ''501''" by code_simp
  then have "os_lookup plain_os (f_user plain_flags) = Some (itoa 501)" by (simp add: plain_os_def)
  from expected_uid_exact [OF s this] s show ?thesis by auto
qed

end
