(* ===== verification/TlsInit.thy ===== *)
theory TlsInit
  imports Startup
begin

unbundle bit_operations_syntax

text \<open>
  \<open>cmd/docker-proxy/tls_init.go\<close> and the \<open>--init-tls\<close> mode of \<open>main.go\<close>: the certificate tree.  The
  cryptography is a parameter (\<open>crypto\<close>): the \<open>n\<close>-th key that is generated, the signature of a
  template by a parent and a key, the encoding of a key, each of which may fail.  The files are
  a map from paths to mode and contents, threaded through the steps; each write may fail.
\<close>

section \<open>Files\<close>

type_synonym files = "gostring \<Rightarrow> (nat \<times> gostring) option"

type_synonym 'a step = "files \<Rightarrow> files \<times> (gostring + 'a)"

definition return :: "'a \<Rightarrow> 'a step" where
  "return x = (\<lambda>fs. (fs, Inr x))"

definition fail :: "gostring \<Rightarrow> 'a step" where
  "fail err = (\<lambda>fs. (fs, Inl err))"

definition bind_step :: "'a step \<Rightarrow> ('a \<Rightarrow> 'b step) \<Rightarrow> 'b step" where
  "bind_step m f = (\<lambda>fs. case m fs of (fs', Inl err) \<Rightarrow> (fs', Inl err) | (fs', Inr x) \<Rightarrow> f x fs')"

definition lift_result :: "gostring \<Rightarrow> 'a option \<Rightarrow> 'a step" where
  "lift_result what r = (case r of None \<Rightarrow> fail what | Some x \<Rightarrow> return x)"

section \<open>Certificates\<close>

datatype usage = CertSign | CRLSign | DigitalSignature | KeyEncipherment
datatype ext_usage = ServerAuth | ClientAuth

record template =
  serial :: int
  common_name :: gostring
  not_before :: int
  not_after :: int
  key_usage :: "usage list"
  ext_key_usage :: "ext_usage list"
  is_ca :: bool
  dns_names :: "gostring list"
  ip_addresses :: "gostring list"

type_synonym key = nat

record crypto =
  generate_key :: "nat \<Rightarrow> key option"
  create_certificate :: "template \<Rightarrow> template \<Rightarrow> key \<Rightarrow> key \<Rightarrow> gostring option"
  marshal_key :: "key \<Rightarrow> gostring option"
  now :: int
  file_umask :: nat
  mkdir_ok :: bool
  open_ok :: "gostring \<Rightarrow> bool"
  encode_ok :: "gostring \<Rightarrow> bool"
  pem :: "gostring \<Rightarrow> gostring \<Rightarrow> gostring"

text \<open>\<open>os.OpenFile\<close> with \<open>O_CREATE|O_TRUNC\<close>: a new file has the mode less the bits of the umask of the
  process, the mode of a file that exists is kept; a failed encoding leaves the file empty.\<close>

definition created_mode :: "crypto \<Rightarrow> nat \<Rightarrow> nat" where
  "created_mode env mode = mode - (mode AND file_umask env)"

definition writePEM :: "crypto \<Rightarrow> gostring \<Rightarrow> gostring \<Rightarrow> gostring \<Rightarrow> nat \<Rightarrow> unit step" where
  "writePEM env path kind der mode = (\<lambda>fs.
     if \<not> open_ok env path then (fs, Inl (''open '' @ path))
     else let m = (case fs path of Some (old, _) \<Rightarrow> old | None \<Rightarrow> created_mode env mode)
          in if encode_ok env path then (fs(path \<mapsto> (m, pem env kind der)), Inr ())
             else (fs(path \<mapsto> (m, [])), Inl ''encode''))"

definition writeKeyPEM :: "crypto \<Rightarrow> gostring \<Rightarrow> key \<Rightarrow> nat \<Rightarrow> unit step" where
  "writeKeyPEM env path key mode =
     bind_step (lift_result ''marshal EC key'' (marshal_key env key)) (\<lambda>der.
       writePEM env path ''EC PRIVATE KEY'' der mode)"

section \<open>The certificate tree\<close>

definition hour :: int where "hour = 3600"

definition valid_from :: "crypto \<Rightarrow> int" where
  "valid_from env = now env - hour"

definition valid_until :: "crypto \<Rightarrow> int" where
  "valid_until env = valid_from env + 10 * 365 * 24 * hour"

definition caTmpl :: "crypto \<Rightarrow> gostring \<Rightarrow> template" where
  "caTmpl env user =
     \<lparr>serial = 1, common_name = ''isolator-docker-proxy-ca:'' @ user, not_before = valid_from env,
       not_after = valid_until env, key_usage = [CertSign, CRLSign], ext_key_usage = [], is_ca = True,
       dns_names = [], ip_addresses = []\<rparr>"

definition srvTmpl :: "crypto \<Rightarrow> gostring \<Rightarrow> template" where
  "srvTmpl env user =
     \<lparr>serial = 2, common_name = ''isolator-docker-proxy:'' @ user, not_before = valid_from env,
       not_after = valid_until env, key_usage = [DigitalSignature, KeyEncipherment],
       ext_key_usage = [ServerAuth], is_ca = False,
       dns_names = [''localhost'', ''host.docker.internal''], ip_addresses = [''127.0.0.1'']\<rparr>"

definition cliTmpl :: "crypto \<Rightarrow> gostring \<Rightarrow> template" where
  "cliTmpl env user =
     \<lparr>serial = 3, common_name = ''isolator-docker-proxy-client:'' @ user, not_before = valid_from env,
       not_after = valid_until env, key_usage = [DigitalSignature], ext_key_usage = [ClientAuth],
       is_ca = False, dns_names = [], ip_addresses = []\<rparr>"

text \<open>One certificate of the tree: generate the key, sign, write the certificate and the key.\<close>

definition issue :: "crypto \<Rightarrow> nat \<Rightarrow> template \<Rightarrow> template \<Rightarrow> (key \<Rightarrow> key) \<Rightarrow> gostring \<Rightarrow> gostring \<Rightarrow>
    key step" where
  "issue env n tmpl parent signer crtFile keyFile =
     bind_step (lift_result ''generate key'' (generate_key env n)) (\<lambda>key.
     bind_step (lift_result ''sign'' (create_certificate env tmpl parent key (signer key))) (\<lambda>der.
     bind_step (writePEM env crtFile ''CERTIFICATE'' der (octal 6 4 4)) (\<lambda>_.
     bind_step (writeKeyPEM env keyFile key (octal 6 0 0)) (\<lambda>_.
     return key))))"

definition generateCerts :: "crypto \<Rightarrow> gostring \<Rightarrow> gostring \<Rightarrow> unit step" where
  "generateCerts env certDir user =
     (if certDir = [] then fail ''certDir is empty''
      else if \<not> mkdir_ok env then fail (''mkdir '' @ certDir)
      else
        bind_step (issue env 0 (caTmpl env user) (caTmpl env user) (\<lambda>key. key)
          (join_path certDir ''ca.pem'') (join_path certDir ''ca.key'')) (\<lambda>caKey.
        bind_step (issue env 1 (srvTmpl env user) (caTmpl env user) (\<lambda>_. caKey)
          (join_path certDir ''server.crt'') (join_path certDir ''server.key'')) (\<lambda>_.
        bind_step (issue env 2 (cliTmpl env user) (caTmpl env user) (\<lambda>_. caKey)
          (join_path certDir ''cert.pem'') (join_path certDir ''key.pem'')) (\<lambda>_.
        return ()))))"

text \<open>\<open>main\<close> under \<open>--init-tls\<close>: the files and the exit status.\<close>

definition init_tls :: "crypto \<Rightarrow> flags \<Rightarrow> files \<Rightarrow> files \<times> nat" where
  "init_tls env f fs =
     (if f_tls_dir f = [] \<or> f_user f = [] then (fs, 2)
      else if fs (join_path (f_tls_dir f) ''ca.pem'') \<noteq> None then (fs, 0)
      else case generateCerts env (f_tls_dir f) (f_user f) fs of
             (fs', Inl err) \<Rightarrow> (fs', 1)
           | (fs', Inr _) \<Rightarrow> (fs', 0))"

section \<open>Lemmas\<close>

lemma bind_step_Inr:
  "bind_step m f fs = (fs', Inr y) \<longleftrightarrow> (\<exists>fs1 x. m fs = (fs1, Inr x) \<and> f x fs1 = (fs', Inr y))"
  by (auto simp: bind_step_def split: prod.splits sum.splits)

lemma lift_result_Inr [simp]: "lift_result what r fs = (fs', Inr x) \<longleftrightarrow> r = Some x \<and> fs' = fs"
  by (auto simp: lift_result_def return_def fail_def split: option.splits)

lemma return_Inr [simp]: "return x fs = (fs', Inr y) \<longleftrightarrow> fs' = fs \<and> y = x"
  by (auto simp: return_def)

definition kept_mode :: "crypto \<Rightarrow> files \<Rightarrow> gostring \<Rightarrow> nat \<Rightarrow> nat" where
  "kept_mode env fs path mode = (case fs path of Some (old, _) \<Rightarrow> old | None \<Rightarrow> created_mode env mode)"

lemma writePEM_Inr:
  "writePEM env path kind der mode fs = (fs', Inr ()) \<Longrightarrow>
     fs' = fs(path \<mapsto> (kept_mode env fs path mode, pem env kind der))"
  by (auto simp: writePEM_def kept_mode_def Let_def split: if_splits)

lemma writeKeyPEM_Inr:
  assumes "writeKeyPEM env path key mode fs = (fs', Inr ())"
  obtains der where "marshal_key env key = Some der"
    "fs' = fs(path \<mapsto> (kept_mode env fs path mode, pem env ''EC PRIVATE KEY'' der))"
  using assms by (auto simp: writeKeyPEM_def bind_step_Inr dest: writePEM_Inr)

lemma issue_Inr:
  assumes "issue env n tmpl parent signer crt kf fs = (fs', Inr key)"
  obtains der kder where "generate_key env n = Some key"
    "create_certificate env tmpl parent key (signer key) = Some der" "marshal_key env key = Some kder"
    "fs' = (fs(crt \<mapsto> (kept_mode env fs crt (octal 6 4 4), pem env ''CERTIFICATE'' der)))
        (kf \<mapsto> (kept_mode env (fs(crt \<mapsto> (kept_mode env fs crt (octal 6 4 4), pem env ''CERTIFICATE'' der))) kf (octal 6 0 0),
                pem env ''EC PRIVATE KEY'' kder))"
proof -
  from assms obtain der fs1 where a: "generate_key env n = Some key"
    "create_certificate env tmpl parent key (signer key) = Some der"
    "writePEM env crt ''CERTIFICATE'' der (octal 6 4 4) fs = (fs1, Inr ())"
    "writeKeyPEM env kf key (octal 6 0 0) fs1 = (fs', Inr ())"
    by (auto simp: issue_def bind_step_Inr)
  from writeKeyPEM_Inr [OF a(4)] obtain kder where "marshal_key env key = Some kder"
    "fs' = fs1(kf \<mapsto> (kept_mode env fs1 kf (octal 6 0 0), pem env ''EC PRIVATE KEY'' kder))" .
  then show thesis using that a(1,2) writePEM_Inr [OF a(3)] by blast
qed

text \<open>File names in one directory are told apart by \<open>filepath.Join\<close>.\<close>

lemma clean_comps_snoc: "plain_comp n \<Longrightarrow> clean_comps rooted out (cs @ [n]) = clean_comps rooted out cs @ [n]"
  by (induction rooted out cs rule: clean_comps.induct) (auto simp: plain_comp_def split: list.splits)

lemma split_on_snoc: "CHR ''/'' \<notin> set n \<Longrightarrow> split_on CHR ''/'' (d @ ''/'' @ n) = split_on CHR ''/'' d @ [n]"
  using split_on_append_sep [of "CHR ''/''" d n] by (simp add: split_on_free)

lemma join_with_snoc: "cs \<noteq> [] \<Longrightarrow> join_with c (cs @ [n]) = join_with c cs @ c # n"
  by (induction c cs rule: join_with.induct) auto

lemma join_path_shape:
  assumes "d \<noteq> []"
  obtains pre where "\<And>n. plain_comp n \<Longrightarrow> join_path d n = pre @ n"
proof -
  define cs where "cs = clean_comps (prefix ''/'' d) [] (split_on CHR ''/'' d)"
  define pre where "pre = (if prefix ''/'' d then ''/'' else []) @ (if cs = [] then [] else join_with CHR ''/'' cs @ ''/'')"
  have "join_path d n = pre @ n" if n: "plain_comp n" for n
  proof -
    have sl: "CHR ''/'' \<notin> set n" using n by (simp add: plain_comp_def)
    have c: "clean_comps (prefix ''/'' d) [] (split_on CHR ''/'' (d @ ''/'' @ n)) = cs @ [n]"
      by (simp only: split_on_snoc [OF sl] clean_comps_snoc [OF n] cs_def)
    have "prefix ''/'' (d @ ''/'' @ n) = prefix ''/'' d" using assms by (cases d) auto
    then show ?thesis
      using assms c join_with_snoc [of cs "CHR ''/''" n]
      by (auto simp: join_path_def clean_def Let_def abs_path_def pre_def)
  qed
  then show thesis by (rule that)
qed

definition tree_files :: "gostring list" where
  "tree_files = [''ca.pem'', ''ca.key'', ''server.crt'', ''server.key'', ''cert.pem'', ''key.pem'']"

lemma tree_files_plain: "n \<in> set tree_files \<Longrightarrow> plain_comp n"
  by (auto simp: tree_files_def plain_comp_def)

lemma join_path_inj:
  assumes "d \<noteq> []" "a \<in> set tree_files" "b \<in> set tree_files"
  shows "join_path d a = join_path d b \<longleftrightarrow> a = b"
  using join_path_shape [OF assms(1)] tree_files_plain assms(2,3) by (metis append_same_eq same_append_eq)

section \<open>Properties\<close>

text \<open>C38. A successful generation leaves the whole tree and nothing else: the certificate and the key
  of the authority, the server and the client, each under its name and in its encoding; the
  server's and the client's certificates are signed by the authority's key under its template;
  every new key file has mode 600 and every new certificate mode 644, less the bits of the umask
  (a file that existed keeps its mode); and no other file changes.\<close>

theorem generateCerts_tree:
  assumes "generateCerts env dir user fs = (fs', Inr ())"
  shows "\<exists>ca srv cli caDer srvDer cliDer caKey srvKey cliKey.
      create_certificate env (caTmpl env user) (caTmpl env user) ca ca = Some caDer
    \<and> create_certificate env (srvTmpl env user) (caTmpl env user) srv ca = Some srvDer
    \<and> create_certificate env (cliTmpl env user) (caTmpl env user) cli ca = Some cliDer
    \<and> marshal_key env ca = Some caKey \<and> marshal_key env srv = Some srvKey \<and> marshal_key env cli = Some cliKey
    \<and> list_all (\<lambda>(n, mode, text). fs' (join_path dir n) = Some (kept_mode env fs (join_path dir n) mode, text))
        [(''ca.pem'', octal 6 4 4, pem env ''CERTIFICATE'' caDer),
         (''ca.key'', octal 6 0 0, pem env ''EC PRIVATE KEY'' caKey),
         (''server.crt'', octal 6 4 4, pem env ''CERTIFICATE'' srvDer),
         (''server.key'', octal 6 0 0, pem env ''EC PRIVATE KEY'' srvKey),
         (''cert.pem'', octal 6 4 4, pem env ''CERTIFICATE'' cliDer),
         (''key.pem'', octal 6 0 0, pem env ''EC PRIVATE KEY'' cliKey)]
    \<and> (\<forall>p. p \<in> join_path dir ` set tree_files \<or> fs' p = fs p)"
proof -
  have d: "dir \<noteq> []" using assms by (auto simp: generateCerts_def fail_def)
  let ?j = "join_path dir"
  from assms d obtain ca srv cli fs1 fs2 where
    i: "issue env 0 (caTmpl env user) (caTmpl env user) (\<lambda>key. key) (?j ''ca.pem'') (?j ''ca.key'') fs = (fs1, Inr ca)"
      "issue env 1 (srvTmpl env user) (caTmpl env user) (\<lambda>_. ca) (?j ''server.crt'') (?j ''server.key'') fs1 = (fs2, Inr srv)"
      "issue env 2 (cliTmpl env user) (caTmpl env user) (\<lambda>_. ca) (?j ''cert.pem'') (?j ''key.pem'') fs2 = (fs', Inr cli)"
    by (auto simp: generateCerts_def bind_step_Inr fail_def split: if_splits)
  have ne: "?j a = ?j b \<longleftrightarrow> a = b" if "a \<in> set tree_files" "b \<in> set tree_files" for a b
    by (rule join_path_inj [OF d that])
  have names: "''ca.pem'' \<in> set tree_files" "''ca.key'' \<in> set tree_files" "''server.crt'' \<in> set tree_files"
    "''server.key'' \<in> set tree_files" "''cert.pem'' \<in> set tree_files" "''key.pem'' \<in> set tree_files"
    by (simp_all add: tree_files_def)
  from issue_Inr [OF i(1)] obtain caDer caKey where a: "create_certificate env (caTmpl env user) (caTmpl env user) ca ca = Some caDer"
      "marshal_key env ca = Some caKey"
    and f1: "fs1 = (fs(?j ''ca.pem'' \<mapsto> (kept_mode env fs (?j ''ca.pem'') (octal 6 4 4), pem env ''CERTIFICATE'' caDer)))
        (?j ''ca.key'' \<mapsto> (kept_mode env (fs(?j ''ca.pem'' \<mapsto> (kept_mode env fs (?j ''ca.pem'') (octal 6 4 4), pem env ''CERTIFICATE'' caDer)))
           (?j ''ca.key'') (octal 6 0 0), pem env ''EC PRIVATE KEY'' caKey))" .
  from issue_Inr [OF i(2)] obtain srvDer srvKey where b: "create_certificate env (srvTmpl env user) (caTmpl env user) srv ca = Some srvDer"
      "marshal_key env srv = Some srvKey"
    and f2: "fs2 = (fs1(?j ''server.crt'' \<mapsto> (kept_mode env fs1 (?j ''server.crt'') (octal 6 4 4), pem env ''CERTIFICATE'' srvDer)))
        (?j ''server.key'' \<mapsto> (kept_mode env (fs1(?j ''server.crt'' \<mapsto> (kept_mode env fs1 (?j ''server.crt'') (octal 6 4 4), pem env ''CERTIFICATE'' srvDer)))
           (?j ''server.key'') (octal 6 0 0), pem env ''EC PRIVATE KEY'' srvKey))" .
  from issue_Inr [OF i(3)] obtain cliDer cliKey where c: "create_certificate env (cliTmpl env user) (caTmpl env user) cli ca = Some cliDer"
      "marshal_key env cli = Some cliKey"
    and f3: "fs' = (fs2(?j ''cert.pem'' \<mapsto> (kept_mode env fs2 (?j ''cert.pem'') (octal 6 4 4), pem env ''CERTIFICATE'' cliDer)))
        (?j ''key.pem'' \<mapsto> (kept_mode env (fs2(?j ''cert.pem'' \<mapsto> (kept_mode env fs2 (?j ''cert.pem'') (octal 6 4 4), pem env ''CERTIFICATE'' cliDer)))
           (?j ''key.pem'') (octal 6 0 0), pem env ''EC PRIVATE KEY'' cliKey))" .
  have files: "list_all (\<lambda>(n, mode, text). fs' (?j n) = Some (kept_mode env fs (?j n) mode, text))
        [(''ca.pem'', octal 6 4 4, pem env ''CERTIFICATE'' caDer),
         (''ca.key'', octal 6 0 0, pem env ''EC PRIVATE KEY'' caKey),
         (''server.crt'', octal 6 4 4, pem env ''CERTIFICATE'' srvDer),
         (''server.key'', octal 6 0 0, pem env ''EC PRIVATE KEY'' srvKey),
         (''cert.pem'', octal 6 4 4, pem env ''CERTIFICATE'' cliDer),
         (''key.pem'', octal 6 0 0, pem env ''EC PRIVATE KEY'' cliKey)]"
    unfolding f3 f2 f1 by (simp add: ne names kept_mode_def)
  have "\<forall>p. p \<in> ?j ` set tree_files \<or> fs' p = fs p"
    unfolding f3 f2 f1 by (auto simp: tree_files_def)
  with a b c files show ?thesis by blast
qed

definition sample_crypto :: "(nat \<Rightarrow> key option) \<Rightarrow> crypto" where
  "sample_crypto keys =
     \<lparr>generate_key = keys, create_certificate = (\<lambda>t p k s. Some (common_name t)), marshal_key = (\<lambda>k. Some ''k''),
       now = 0, file_umask = octal 0 2 2, mkdir_ok = True, open_ok = (\<lambda>p. True), encode_ok = (\<lambda>p. True), pem = (\<lambda>kind der. kind @ der)\<rparr>"

theorem generateCerts_tree_witness:
  "\<exists>fs' caDer. generateCerts (sample_crypto Some) ''/t'' ''alice'' Map.empty = (fs', Inr ())
     \<and> fs' (join_path ''/t'' ''key.pem'') = Some (octal 6 0 0, caDer)"
proof -
  obtain fs' where ok: "generateCerts (sample_crypto Some) ''/t'' ''alice'' Map.empty = (fs', Inr ())"
    by (simp add: generateCerts_def issue_def bind_step_def lift_result_def return_def writeKeyPEM_def
        writePEM_def sample_crypto_def Let_def)
  from generateCerts_tree [OF ok] have "\<exists>text. fs' (join_path ''/t'' ''key.pem'')
      = Some (kept_mode (sample_crypto Some) Map.empty (join_path ''/t'' ''key.pem'') (octal 6 0 0), text)" by auto
  moreover have "created_mode (sample_crypto Some) (octal 6 0 0) = octal 6 0 0" by code_simp
  ultimately show ?thesis using ok by (auto simp: kept_mode_def)
qed

text \<open>An interrupted generation is never completed: when the key of the server cannot be generated,
  the first run exits with status 1 and leaves the certificate of the authority; from then on
  every run exits with status 0 and changes nothing, although the certificates of server and
  client do not exist.\<close>

theorem partial_init_stuck:
  "case init_tls (sample_crypto (\<lambda>n. if n = 1 then None else Some n)) (plain_flags\<lparr>f_init_tls := True\<rparr>) Map.empty of
     (fs1, code) \<Rightarrow> code = 1 \<and> fs1 (join_path ''/t'' ''server.crt'') = None
       \<and> fs1 (join_path ''/t'' ''cert.pem'') = None
       \<and> (\<forall>env. init_tls env (plain_flags\<lparr>f_init_tls := True\<rparr>) fs1 = (fs1, 0))"
proof -
  have ne: "join_path ''/t'' a = join_path ''/t'' b \<longleftrightarrow> a = b" if "a \<in> set tree_files" "b \<in> set tree_files" for a b
    by (rule join_path_inj [OF _ that]) simp
  show ?thesis
    by (simp add: init_tls_def plain_flags_def generateCerts_def issue_def bind_step_def lift_result_def
        return_def fail_def writeKeyPEM_def writePEM_def sample_crypto_def Let_def ne tree_files_def)
qed

end
