(* ===== verification/HostLock.thy ===== *)
theory HostLock
  imports Connect
begin

text \<open>
  \<open>internal/proxy/connect.go\<close>: \<open>Contains\<close> and \<open>Reload\<close> when they run at the same time.  The CONNECT
  connections ask the allowlist from goroutines of their own while \<open>SIGHUP\<close> replaces its two fields
  one after the other; the \<open>sync.RWMutex\<close> is to make the replacement atomic.  The steps of any
  number of readers and writers are interleaved freely, and every answer is compared with
  \<open>Contains\<close> on a complete allowlist.
\<close>

section \<open>State\<close>

text \<open>A goroutine in \<open>Contains host\<close>: at \<open>RLock\<close>, at the map, at the suffixes, at \<open>RUnlock\<close>, returned.
  The first number is the version of the allowlist at the call, the second that of the answer;
  both are for the statements only.\<close>

datatype reader_pc =
    Outside
  | AtRLock gostring nat
  | AtHosts gostring nat
  | AtSuffixes gostring nat
  | AtRUnlock gostring nat nat bool
  | Answered gostring nat nat bool

text \<open>A goroutine in \<open>Reload\<close>, with the parsed file: at \<open>Lock\<close>, at the assignments, at \<open>Unlock\<close>.\<close>

datatype writer_pc =
    NotReloading
  | AtLock "gostring list" "gostring list"
  | AtSetHosts "gostring list" "gostring list"
  | AtSetSuffixes "gostring list" "gostring list"
  | AtUnlock

text \<open>The mutex is the set of the readers that hold it and the writer that does.  \<open>versions\<close> is the
  history of the complete allowlists, the loaded one first.\<close>

record shared =
  hosts :: "gostring list"
  suffixes :: "gostring list"
  rlocked :: "nat set"
  wlocked :: "nat option"
  reader :: "nat \<Rightarrow> reader_pc"
  writer :: "nat \<Rightarrow> writer_pc"
  versions :: "(gostring list \<times> gostring list) list"

definition loaded :: "host_allowlist \<Rightarrow> shared" where
  "loaded a =
     \<lparr>hosts = al_hosts a, suffixes = al_suffixes a, rlocked = {}, wlocked = None,
       reader = (\<lambda>_. Outside), writer = (\<lambda>_. NotReloading), versions = [(al_hosts a, al_suffixes a)]\<rparr>"

definition version :: "shared \<Rightarrow> nat" where
  "version s = length (versions s) - 1"

section \<open>Steps\<close>

inductive reader_step :: "(nat \<Rightarrow> nat) \<Rightarrow> shared \<Rightarrow> shared \<Rightarrow> bool" for uni where
  call: "reader s i = Outside \<Longrightarrow>
     reader_step uni s (s\<lparr>reader := (reader s)(i := AtRLock host (version s))\<rparr>)"
| rlock: "reader s i = AtRLock host v \<Longrightarrow> wlocked s = None \<Longrightarrow>
     reader_step uni s (s\<lparr>rlocked := insert i (rlocked s), reader := (reader s)(i := AtHosts host v)\<rparr>)"
| hosts_hit: "reader s i = AtHosts host v \<Longrightarrow> to_lower uni host \<in> set (hosts s) \<Longrightarrow>
     reader_step uni s (s\<lparr>reader := (reader s)(i := AtRUnlock host v (version s) True)\<rparr>)"
| hosts_miss: "reader s i = AtHosts host v \<Longrightarrow> to_lower uni host \<notin> set (hosts s) \<Longrightarrow>
     reader_step uni s (s\<lparr>reader := (reader s)(i := AtSuffixes host v)\<rparr>)"
| suffixes_read: "reader s i = AtSuffixes host v \<Longrightarrow>
     b = list_ex (\<lambda>suf. suffix suf (to_lower uni host)) (suffixes s) \<Longrightarrow>
     reader_step uni s (s\<lparr>reader := (reader s)(i := AtRUnlock host v (version s) b)\<rparr>)"
| runlock: "reader s i = AtRUnlock host v v' b \<Longrightarrow>
     reader_step uni s (s\<lparr>rlocked := rlocked s - {i}, reader := (reader s)(i := Answered host v v' b)\<rparr>)"
| return_answer: "reader s i = Answered host v v' b \<Longrightarrow>
     reader_step uni s (s\<lparr>reader := (reader s)(i := Outside)\<rparr>)"

inductive writer_step :: "shared \<Rightarrow> shared \<Rightarrow> bool" where
  parsed: "writer s j = NotReloading \<Longrightarrow> writer_step s (s\<lparr>writer := (writer s)(j := AtLock hs ss)\<rparr>)"
| lock: "writer s j = AtLock hs ss \<Longrightarrow> wlocked s = None \<Longrightarrow> rlocked s = {} \<Longrightarrow>
     writer_step s (s\<lparr>wlocked := Some j, writer := (writer s)(j := AtSetHosts hs ss)\<rparr>)"
| set_hosts: "writer s j = AtSetHosts hs ss \<Longrightarrow>
     writer_step s (s\<lparr>hosts := hs, writer := (writer s)(j := AtSetSuffixes hs ss)\<rparr>)"
| set_suffixes: "writer s j = AtSetSuffixes hs ss \<Longrightarrow>
     writer_step s (s\<lparr>suffixes := ss, versions := versions s @ [(hs, ss)], writer := (writer s)(j := AtUnlock)\<rparr>)"
| unlock: "writer s j = AtUnlock \<Longrightarrow>
     writer_step s (s\<lparr>wlocked := None, writer := (writer s)(j := NotReloading)\<rparr>)"

inductive shares :: "(nat \<Rightarrow> nat) \<Rightarrow> host_allowlist \<Rightarrow> shared \<Rightarrow> bool" for uni a where
  load: "shares uni a (loaded a)"
| reads: "shares uni a s \<Longrightarrow> reader_step uni s s' \<Longrightarrow> shares uni a s'"
| writes: "shares uni a s \<Longrightarrow> writer_step s s' \<Longrightarrow> shares uni a s'"

section \<open>The invariant\<close>

fun holds_read :: "reader_pc \<Rightarrow> bool" where
  "holds_read (AtHosts _ _) \<longleftrightarrow> True"
| "holds_read (AtSuffixes _ _) \<longleftrightarrow> True"
| "holds_read (AtRUnlock _ _ _ _) \<longleftrightarrow> True"
| "holds_read _ \<longleftrightarrow> False"

fun holds_write :: "writer_pc \<Rightarrow> bool" where
  "holds_write (AtSetHosts _ _) \<longleftrightarrow> True"
| "holds_write (AtSetSuffixes _ _) \<longleftrightarrow> True"
| "holds_write AtUnlock \<longleftrightarrow> True"
| "holds_write _ \<longleftrightarrow> False"

fun between :: "writer_pc \<Rightarrow> bool" where
  "between (AtSetSuffixes _ _) \<longleftrightarrow> True"
| "between _ \<longleftrightarrow> False"

definition allows :: "(nat \<Rightarrow> nat) \<Rightarrow> gostring list \<times> gostring list \<Rightarrow> gostring \<Rightarrow> bool" where
  "allows uni snap host \<longleftrightarrow>
     to_lower uni host \<in> set (fst snap) \<or> list_ex (\<lambda>suf. suffix suf (to_lower uni host)) (snd snap)"

text \<open>The mutex: writers exclude everybody.\<close>

definition lock_inv :: "shared \<Rightarrow> bool" where
  "lock_inv s \<longleftrightarrow>
     (\<forall>i. i \<in> rlocked s \<longleftrightarrow> holds_read (reader s i))
   \<and> (\<forall>j. wlocked s = Some j \<longleftrightarrow> holds_write (writer s j))
   \<and> (wlocked s \<noteq> None \<longrightarrow> rlocked s = {})"

text \<open>The fields are the latest version, but for the hosts between the two assignments.\<close>

definition data_inv :: "shared \<Rightarrow> bool" where
  "data_inv s \<longleftrightarrow> versions s \<noteq> [] \<and> suffixes s = snd (last (versions s))
   \<and> (\<forall>j hs ss. writer s j = AtSetSuffixes hs ss \<longrightarrow> hosts s = hs)
   \<and> ((\<forall>j. \<not> between (writer s j)) \<longrightarrow> hosts s = fst (last (versions s)))"

text \<open>What a reader knows at each point.\<close>

fun knows :: "(nat \<Rightarrow> nat) \<Rightarrow> shared \<Rightarrow> reader_pc \<Rightarrow> bool" where
  "knows uni s Outside \<longleftrightarrow> True"
| "knows uni s (AtRLock host v) \<longleftrightarrow> v < length (versions s)"
| "knows uni s (AtHosts host v) \<longleftrightarrow> v < length (versions s)"
| "knows uni s (AtSuffixes host v) \<longleftrightarrow> v < length (versions s) \<and> to_lower uni host \<notin> set (fst (last (versions s)))"
| "knows uni s (AtRUnlock host v v' b) \<longleftrightarrow> v \<le> v' \<and> v' < length (versions s) \<and> b = allows uni (versions s ! v') host"
| "knows uni s (Answered host v v' b) \<longleftrightarrow> v \<le> v' \<and> v' < length (versions s) \<and> b = allows uni (versions s ! v') host"

definition shared_inv :: "(nat \<Rightarrow> nat) \<Rightarrow> shared \<Rightarrow> bool" where
  "shared_inv uni s \<longleftrightarrow> lock_inv s \<and> data_inv s \<and> (\<forall>i. knows uni s (reader s i))"

lemma loaded_inv: "shared_inv uni (loaded a)"
  by (simp add: loaded_def shared_inv_def lock_inv_def data_inv_def)

lemma knows_cong: "versions s' = versions s \<Longrightarrow> knows uni s' pc = knows uni s pc"
  by (cases pc) simp_all

lemma version_last: "versions s \<noteq> [] \<Longrightarrow> versions s ! version s = last (versions s)"
  by (simp add: version_def last_conv_nth)

lemma version_less: "versions s \<noteq> [] \<Longrightarrow> version s < length (versions s)"
  by (simp add: version_def)

lemma version_greatest: "v < length (versions s) \<Longrightarrow> v \<le> version s"
  by (simp add: version_def)

text \<open>While a reader holds the mutex, no writer is between its assignments.\<close>

lemma reading_data:
  assumes "shared_inv uni s" "holds_read (reader s i)"
  shows "hosts s = fst (last (versions s))" "suffixes s = snd (last (versions s))" "versions s \<noteq> []"
proof -
  have "wlocked s = None" using assms by (auto simp: shared_inv_def lock_inv_def)
  then have "\<not> holds_write (writer s j)" for j using assms(1) by (simp add: shared_inv_def lock_inv_def)
  then have "\<not> between (writer s j)" for j by (metis between.elims(2) holds_write.simps(2))
  then show "hosts s = fst (last (versions s))" "suffixes s = snd (last (versions s))" "versions s \<noteq> []"
    using assms(1) by (simp_all add: shared_inv_def data_inv_def)
qed

lemma reader_step_inv:
  assumes "reader_step uni s s'" "shared_inv uni s"
  shows "shared_inv uni s'"
proof -
  have ne: "versions s \<noteq> []" using assms(2) by (simp add: shared_inv_def data_inv_def)
  have k: "knows uni s (reader s i)" for i using assms(2) by (simp add: shared_inv_def)
  from assms(1) have "lock_inv s'"
    by cases (use assms(2) in \<open>auto simp: shared_inv_def lock_inv_def\<close>)
  moreover from assms(1) have "data_inv s'"
    by cases (use assms(2) in \<open>auto simp: shared_inv_def data_inv_def\<close>)
  moreover from assms(1) have "\<exists>i pc. reader s' = (reader s)(i := pc) \<and> versions s' = versions s \<and> knows uni s pc"
  proof cases
    case (call i host)
    then show ?thesis using version_less [OF ne] by (intro exI [of _ i] exI [of _ "AtRLock host (version s)"]) simp
  next
    case (rlock i host v)
    then show ?thesis using k [of i] by (intro exI [of _ i] exI [of _ "AtHosts host v"]) simp
  next
    case (hosts_hit i host v)
    then have "hosts s = fst (last (versions s))" using reading_data [OF assms(2), of i] by simp
    then show ?thesis
      using hosts_hit k [of i] version_less [OF ne] version_last [OF ne]
      by (intro exI [of _ i] exI [of _ "AtRUnlock host v (version s) True"]) (simp add: allows_def version_greatest)
  next
    case (hosts_miss i host v)
    then show ?thesis
      using k [of i] reading_data [OF assms(2), of i] by (intro exI [of _ i] exI [of _ "AtSuffixes host v"]) simp
  next
    case (suffixes_read i host v b)
    then show ?thesis
      using k [of i] reading_data [OF assms(2), of i] version_less [OF ne] version_last [OF ne]
      by (intro exI [of _ i] exI [of _ "AtRUnlock host v (version s) b"]) (simp add: allows_def version_greatest)
  next
    case (runlock i host v v' b)
    then show ?thesis using k [of i] by (intro exI [of _ i] exI [of _ "Answered host v v' b"]) simp
  next
    case (return_answer i host v v' b)
    then show ?thesis by (intro exI [of _ i] exI [of _ Outside]) simp
  qed
  then have "knows uni s' (reader s' i)" for i using k knows_cong [of s' s uni] by auto
  ultimately show ?thesis by (simp add: shared_inv_def)
qed

text \<open>Versions are only added, so what a reader knows stays true, but for the readers inside.\<close>

lemma knows_appended:
  assumes "knows uni s pc" "\<not> holds_read pc" "versions s' = versions s @ vs"
  shows "knows uni s' pc"
  using assms by (cases pc) (auto simp: nth_append)

lemma writers_exclusive:
  assumes "lock_inv s" "holds_write (writer s j)" "holds_write (writer s j')"
  shows "j = j'"
  using assms unfolding lock_inv_def by (metis option.inject)

lemma between_others:
  "\<not> between (w j) \<Longrightarrow> (\<forall>i. i \<noteq> j \<longrightarrow> \<not> between (w i)) \<longleftrightarrow> (\<forall>i. \<not> between (w i))"
  by metis

lemma writer_step_inv:
  assumes "writer_step s s'" "shared_inv uni s"
  shows "shared_inv uni s'"
proof -
  have l: "lock_inv s" and d: "data_inv s" and k: "\<And>i. knows uni s (reader s i)"
    using assms(2) by (simp_all add: shared_inv_def)
  have quiet: "\<not> holds_read (reader s i)" if "holds_write (writer s j)" for i j
    using l that by (auto simp: lock_inv_def)
  from assms(1) have "lock_inv s'"
  proof cases
    case (unlock j)
    then show ?thesis using l writers_exclusive [OF l, of j] by (auto simp: lock_inv_def)
  qed (use l in \<open>auto simp: lock_inv_def\<close>)
  moreover have others: "\<not> between (writer s j')" if "holds_write (writer s j)" "j' \<noteq> j" for j j'
    using writers_exclusive [OF l that(1), of j'] that(2) by (metis between.elims(2) holds_write.simps(2))
  from assms(1) have "data_inv s'"
  proof cases
    case (set_hosts j hs ss)
    have "hosts s' = hs'" if "writer s' j' = AtSetSuffixes hs' ss'" for j' hs' ss'
      using that set_hosts(1) others [of j j'] set_hosts(2) by (cases "j' = j") auto
    moreover have "between (writer s' j)" using set_hosts(1) by simp
    moreover have "versions s' = versions s" "suffixes s' = suffixes s" using set_hosts(1) by simp_all
    ultimately show ?thesis using d unfolding data_inv_def by metis
  next
    case (set_suffixes j hs ss)
    then have "hosts s = hs" using d by (auto simp: data_inv_def)
    moreover have "\<not> between (writer s' j')" for j'
      using set_suffixes others [of j j'] by (cases "j' = j") auto
    moreover from this have "writer s' j' \<noteq> AtSetSuffixes hs' ss'" for j' hs' ss' by (metis between.simps(1))
    ultimately show ?thesis using set_suffixes(1) by (simp add: data_inv_def)
  qed (use d in \<open>simp_all add: data_inv_def between_others\<close>)
  moreover from assms(1) have "knows uni s' (reader s' i)" for i
  proof cases
    case (set_suffixes j hs ss)
    then show ?thesis using knows_appended [OF k [of i] quiet [of j i]] by simp
  qed (use k [of i] knows_cong [of s' s uni] in simp_all)
  ultimately show ?thesis by (simp add: shared_inv_def)
qed

lemma shares_inv: "shares uni a s \<Longrightarrow> shared_inv uni s"
  by (induction rule: shares.induct) (blast intro: loaded_inv reader_step_inv writer_step_inv)+

section \<open>Properties\<close>

text \<open>C16. Concurrent lookups are atomic: every answer of \<open>Contains\<close>, in any interleaving with any number of
  reloads and other lookups, is the answer of \<open>Contains\<close> on one complete allowlist, never on the
  hosts of one file and the suffixes of another; and that allowlist was not yet outdated when the
  lookup was called.\<close>

theorem contains_atomic:
  assumes "shares uni a s" "reader s i = Answered host v v' b"
  shows "v \<le> v' \<and> v' < length (versions s)
    \<and> (\<forall>path. b = Contains uni \<lparr>al_path = path, al_hosts = fst (versions s ! v'),
                                 al_suffixes = snd (versions s ! v')\<rparr> host)"
proof -
  have "knows uni s (reader s i)" using shares_inv [OF assms(1)] by (simp add: shared_inv_def)
  then show ?thesis using assms(2) by (auto simp: allows_def Contains_def Let_def)
qed

text \<open>A lookup that finds its host, with a reload waiting for it.\<close>

lemma sample_lookup:
  "\<exists>s. shares (\<lambda>r. r) \<lparr>al_path = [], al_hosts = [''a.io''], al_suffixes = []\<rparr> s
     \<and> reader s 0 = Answered ''A.io'' 0 0 True"
proof -
  let ?a = "\<lparr>al_path = [], al_hosts = [''a.io''], al_suffixes = []\<rparr> :: host_allowlist"
  note r = shares.reads [of "\<lambda>r. r" ?a] and w = shares.writes [of "\<lambda>r. r" ?a]
  let ?s0 = "loaded ?a"
  let ?s1 = "?s0\<lparr>reader := (reader ?s0)(0 := AtRLock ''A.io'' (version ?s0))\<rparr>"
  let ?s2 = "?s1\<lparr>rlocked := insert 0 (rlocked ?s1), reader := (reader ?s1)(0 := AtHosts ''A.io'' 0)\<rparr>"
  let ?s3 = "?s2\<lparr>writer := (writer ?s2)(0 := AtLock [] [])\<rparr>"
  let ?s4 = "?s3\<lparr>reader := (reader ?s3)(0 := AtRUnlock ''A.io'' 0 (version ?s3) True)\<rparr>"
  let ?s5 = "?s4\<lparr>rlocked := rlocked ?s4 - {0}, reader := (reader ?s4)(0 := Answered ''A.io'' 0 (version ?s3) True)\<rparr>"
  have low: "to_lower (\<lambda>r. r) ''A.io'' = ''a.io''" by code_simp
  have s1: "shares (\<lambda>r. r) ?a ?s1" by (rule r [OF shares.load call]) (simp add: loaded_def)
  have s2: "shares (\<lambda>r. r) ?a ?s2" by (rule r [OF s1 rlock]) (simp_all add: version_def loaded_def)
  have s3: "shares (\<lambda>r. r) ?a ?s3" by (rule w [OF s2 parsed]) (simp add: loaded_def)
  have s4: "shares (\<lambda>r. r) ?a ?s4" by (rule r [OF s3 hosts_hit]) (simp_all add: low loaded_def)
  have s5: "shares (\<lambda>r. r) ?a ?s5" by (rule r [OF s4 runlock]) simp
  have "reader ?s5 0 = Answered ''A.io'' 0 0 True" by (simp add: version_def loaded_def)
  then show ?thesis using s5 by blast
qed

theorem contains_atomic_witness:
  "\<exists>s. shares (\<lambda>r. r) \<lparr>al_path = [], al_hosts = [''a.io''], al_suffixes = []\<rparr> s
     \<and> Contains (\<lambda>r. r) \<lparr>al_path = [], al_hosts = fst (versions s ! 0), al_suffixes = snd (versions s ! 0)\<rparr> ''A.io''"
proof -
  obtain s where s: "shares (\<lambda>r. r) \<lparr>al_path = [], al_hosts = [''a.io''], al_suffixes = []\<rparr> s"
    "reader s 0 = Answered ''A.io'' 0 0 True"
    using sample_lookup by blast
  from contains_atomic [OF this] s(1) show ?thesis by auto
qed

end
