(* ===== verification/Lifecycle.thy ===== *)
theory Lifecycle
  imports Startup
begin

text \<open>
  \<open>cmd/docker-proxy/main.go\<close> as a running process: the goroutine of \<open>main\<close>, which works off the
  events of \<open>Startup.main\<close>, the goroutine that waits for \<open>SIGTERM\<close> and \<open>SIGINT\<close>, those that serve the
  TCP port and reload the allowlist on \<open>SIGHUP\<close>, and the once-only \<open>cleanup\<close> that \<open>main\<close> and the
  signal goroutine race for.  \<open>prog_step\<close> has the steps of the program, in any interleaving,
  \<open>env_step\<close> the signals that arrive and the listeners that break.  Connections that are already
  being served, and the goroutine of the CONNECT listener, do not touch this state.
\<close>

section \<open>State\<close>

datatype goroutine = Main | Signals

datatype cleanup_op = CloseServer | CloseUnix | CloseConnect | RemoveSocket

text \<open>The body of \<open>cleanup\<close>.\<close>

definition cleanup_ops :: "cleanup_op list" where
  "cleanup_ops = [CloseServer, CloseUnix, CloseConnect, RemoveSocket]"

text \<open>\<open>sync.Once\<close>: not yet run, being run by one goroutine with what is left of it, run.\<close>

datatype once = Fresh | Running goroutine "cleanup_op list" | Completed

text \<open>The signal goroutine: not started, at \<open><-sigCh\<close>, at \<open>cleanup()\<close>, at \<open>os.Exit(0)\<close>.\<close>

datatype signal_pc = Off | Awaiting | Cleaning | Finished

text \<open>The TCP listener: \<open>server.Serve\<close> is about to start, tracks the listener, finds it closed, is over.\<close>

datatype tcp_state = NoTcp | Starting | Serving | Closing | Stopped

text \<open>The variable \<open>connectListener\<close>.\<close>

datatype connect_state = NilListener | OpenListener | ClosedListener

datatype end_of_process = Exited nat | Killed

record proc =
  todo :: "main_event list"
  signal_pc :: signal_pc
  sig_pending :: bool
  once :: once
  cleaned :: "cleanup_op list"
  server_closed :: bool
  unix_open :: bool
  unix_tracked :: bool
  unix_broken :: bool
  socket_file :: bool
  tcp :: tcp_state
  tcp_broken :: bool
  connect :: connect_state
  hup_on :: bool
  hup_ignored :: bool
  hup_pending :: bool
  allow :: "host_allowlist option"
  ended :: "end_of_process option"

text \<open>The process at the start of \<open>main\<close>; \<open>ignored\<close> is whether it was started with \<open>SIGHUP\<close> ignored
  (\<open>nohup\<close>).\<close>

definition launch :: "flags \<Rightarrow> os \<Rightarrow> (nat \<Rightarrow> nat) \<Rightarrow> bool \<Rightarrow> proc" where
  "launch f sys uni ignored =
     \<lparr>todo = main f sys uni, signal_pc = Off, sig_pending = False, once = Fresh, cleaned = [],
       server_closed = False, unix_open = False, unix_tracked = False, unix_broken = False,
       socket_file = False, tcp = NoTcp, tcp_broken = False, connect = NilListener,
       hup_on = False, hup_ignored = ignored, hup_pending = False, allow = None, ended = None\<rparr>"

section \<open>Effects\<close>

text \<open>Closing a Unix listener for the first time also unlinks its socket.\<close>

definition close_unix :: "proc \<Rightarrow> proc" where
  "close_unix s = (if unix_open s then s\<lparr>unix_open := False, socket_file := False\<rparr> else s)"

text \<open>\<open>server.Close\<close>: no listener is served any more, and those that are served are closed.\<close>

definition close_server :: "proc \<Rightarrow> proc" where
  "close_server s =
     (let s1 = s\<lparr>server_closed := True, tcp := (if tcp s = Serving then Closing else tcp s)\<rparr>
      in if unix_tracked s then close_unix s1 else s1)"

fun cleanup_effect :: "cleanup_op \<Rightarrow> proc \<Rightarrow> proc" where
  "cleanup_effect CloseServer s = close_server s"
| "cleanup_effect CloseUnix s = close_unix s"
| "cleanup_effect CloseConnect s =
     s\<lparr>connect := (if connect s = OpenListener then ClosedListener else connect s)\<rparr>"
| "cleanup_effect RemoveSocket s = s\<lparr>socket_file := False\<rparr>"

text \<open>What an event of \<open>main\<close> does to this state; the rest is output and calls of the system.\<close>

fun main_effect :: "os \<Rightarrow> main_event \<Rightarrow> proc \<Rightarrow> proc" where
  "main_effect sys (Remove p) s = s\<lparr>socket_file := False\<rparr>"
| "main_effect sys (ListenUnix p) s =
     (if os_listen_unix sys then s\<lparr>unix_open := True, socket_file := True\<rparr> else s)"
| "main_effect sys CloseListener s = close_unix s"
| "main_effect sys NotifyTerm s = s\<lparr>signal_pc := Awaiting\<rparr>"
| "main_effect sys (SetConnectListener p) s = s\<lparr>connect := OpenListener\<rparr>"
| "main_effect sys (ServeConnect a) s = s\<lparr>allow := Some a\<rparr>"
| "main_effect sys NotifyHup s = s\<lparr>hup_on := True\<rparr>"
| "main_effect sys (ServeTcp cfg) s = s\<lparr>tcp := Starting\<rparr>"
| "main_effect sys e s = s"

text \<open>The events at which \<open>main\<close> may wait or end are steps of their own.\<close>

fun blocking :: "main_event \<Rightarrow> bool" where
  "blocking (ServeUnix l) \<longleftrightarrow> True"
| "blocking Cleanup \<longleftrightarrow> True"
| "blocking (Exit n) \<longleftrightarrow> True"
| "blocking _ \<longleftrightarrow> False"

text \<open>A goroutine that has called \<open>cleanup\<close> and has not returned from it.\<close>

fun in_cleanup :: "goroutine \<Rightarrow> proc \<Rightarrow> bool" where
  "in_cleanup Main s \<longleftrightarrow> (case todo s of Cleanup # _ \<Rightarrow> True | _ \<Rightarrow> False)"
| "in_cleanup Signals s \<longleftrightarrow> signal_pc s = Cleaning"

section \<open>Steps\<close>

inductive prog_step :: "os \<Rightarrow> (nat \<Rightarrow> nat) \<Rightarrow> proc \<Rightarrow> proc \<Rightarrow> bool" for sys uni where
  main_goes_on: "ended s = None \<Longrightarrow> todo s = e # es \<Longrightarrow> \<not> blocking e \<Longrightarrow>
     prog_step sys uni s ((main_effect sys e s)\<lparr>todo := es\<rparr>)"
| main_exits: "ended s = None \<Longrightarrow> todo s = Exit n # es \<Longrightarrow> prog_step sys uni s (s\<lparr>ended := Some (Exited n)\<rparr>)"
| main_returns: "ended s = None \<Longrightarrow> todo s = [] \<Longrightarrow> prog_step sys uni s (s\<lparr>ended := Some (Exited 0)\<rparr>)"
| unix_tracks: "ended s = None \<Longrightarrow> todo s = ServeUnix l # es \<Longrightarrow> \<not> unix_tracked s \<Longrightarrow> \<not> server_closed s \<Longrightarrow>
     prog_step sys uni s (s\<lparr>unix_tracked := True\<rparr>)"
| unix_refused: "ended s = None \<Longrightarrow> todo s = ServeUnix l # es \<Longrightarrow> \<not> unix_tracked s \<Longrightarrow> server_closed s \<Longrightarrow>
     prog_step sys uni s ((close_unix s)\<lparr>todo := es\<rparr>)"
| unix_returns: "ended s = None \<Longrightarrow> todo s = ServeUnix l # es \<Longrightarrow> unix_tracked s \<Longrightarrow>
     unix_broken s \<or> \<not> unix_open s \<Longrightarrow>
     prog_step sys uni s ((close_unix s)\<lparr>todo := es, unix_tracked := False\<rparr>)"
| once_enters: "ended s = None \<Longrightarrow> in_cleanup g s \<Longrightarrow> once s = Fresh \<Longrightarrow>
     prog_step sys uni s (s\<lparr>once := Running g cleanup_ops\<rparr>)"
| once_runs: "ended s = None \<Longrightarrow> once s = Running g (op # ops) \<Longrightarrow>
     prog_step sys uni s ((cleanup_effect op s)\<lparr>once := Running g ops, cleaned := cleaned s @ [op]\<rparr>)"
| once_ends: "ended s = None \<Longrightarrow> once s = Running g [] \<Longrightarrow> prog_step sys uni s (s\<lparr>once := Completed\<rparr>)"
| main_cleaned: "ended s = None \<Longrightarrow> todo s = Cleanup # es \<Longrightarrow> once s = Completed \<Longrightarrow>
     prog_step sys uni s (s\<lparr>todo := es\<rparr>)"
| signal_received: "ended s = None \<Longrightarrow> signal_pc s = Awaiting \<Longrightarrow> sig_pending s \<Longrightarrow>
     prog_step sys uni s (s\<lparr>signal_pc := Cleaning, sig_pending := False\<rparr>)"
| signal_cleaned: "ended s = None \<Longrightarrow> signal_pc s = Cleaning \<Longrightarrow> once s = Completed \<Longrightarrow>
     prog_step sys uni s (s\<lparr>signal_pc := Finished\<rparr>)"
| signal_exits: "ended s = None \<Longrightarrow> signal_pc s = Finished \<Longrightarrow>
     prog_step sys uni s (s\<lparr>ended := Some (Exited 0)\<rparr>)"
| tcp_tracks: "ended s = None \<Longrightarrow> tcp s = Starting \<Longrightarrow> \<not> server_closed s \<Longrightarrow> prog_step sys uni s (s\<lparr>tcp := Serving\<rparr>)"
| tcp_refused: "ended s = None \<Longrightarrow> tcp s = Starting \<Longrightarrow> server_closed s \<Longrightarrow> prog_step sys uni s (s\<lparr>tcp := Stopped\<rparr>)"
| tcp_returns: "ended s = None \<Longrightarrow> tcp s = Closing \<or> tcp s = Serving \<and> tcp_broken s \<Longrightarrow>
     prog_step sys uni s (s\<lparr>tcp := Stopped\<rparr>)"
| hup_received: "ended s = None \<Longrightarrow> hup_on s \<Longrightarrow> hup_pending s \<Longrightarrow> allow s = Some a \<Longrightarrow>
     prog_step sys uni s (s\<lparr>hup_pending := False, allow := Some (fst (on_sighup uni read_file a))\<rparr>)"

text \<open>The channels of the signals hold one signal; without \<open>signal.Notify\<close> a signal ends the process,
  unless it is ignored.\<close>

inductive env_step :: "proc \<Rightarrow> proc \<Rightarrow> bool" where
  sigterm: "ended s = None \<Longrightarrow> signal_pc s \<noteq> Off \<Longrightarrow> env_step s (s\<lparr>sig_pending := True\<rparr>)"
| sigterm_default: "ended s = None \<Longrightarrow> signal_pc s = Off \<Longrightarrow> env_step s (s\<lparr>ended := Some Killed\<rparr>)"
| sighup: "ended s = None \<Longrightarrow> hup_on s \<Longrightarrow> env_step s (s\<lparr>hup_pending := True\<rparr>)"
| sighup_default: "ended s = None \<Longrightarrow> \<not> hup_on s \<Longrightarrow> \<not> hup_ignored s \<Longrightarrow> env_step s (s\<lparr>ended := Some Killed\<rparr>)"
| unix_breaks: "env_step s (s\<lparr>unix_broken := True\<rparr>)"
| tcp_breaks: "env_step s (s\<lparr>tcp_broken := True\<rparr>)"

inductive runs :: "flags \<Rightarrow> os \<Rightarrow> (nat \<Rightarrow> nat) \<Rightarrow> proc \<Rightarrow> bool" for f sys uni where
  starts: "runs f sys uni (launch f sys uni ignored)"
| steps: "runs f sys uni s \<Longrightarrow> prog_step sys uni s s' \<Longrightarrow> runs f sys uni s'"
| moves: "runs f sys uni s \<Longrightarrow> env_step s s' \<Longrightarrow> runs f sys uni s'"

inductive_cases prog_stepE: "prog_step sys uni s s'"
inductive_cases env_stepE: "env_step s s'"

section \<open>The events of main are in order\<close>

fun binds :: "main_event \<Rightarrow> bool" where
  "binds (ListenUnix p) \<longleftrightarrow> True"
| "binds CloseListener \<longleftrightarrow> True"
| "binds NotifyTerm \<longleftrightarrow> True"
| "binds _ \<longleftrightarrow> False"

abbreviation settled :: "main_event list \<Rightarrow> bool" where
  "settled es \<equiv> list_all (\<lambda>e. \<not> binds e) es"

text \<open>With the socket bound (\<open>b\<close>), the events lead to a close of the listener before the program ends;
  once the signals are handled, no socket is bound any more.\<close>

fun orderly :: "os \<Rightarrow> bool \<Rightarrow> main_event list \<Rightarrow> bool" where
  "orderly sys b [] \<longleftrightarrow> \<not> b"
| "orderly sys b (ListenUnix p # es) \<longleftrightarrow> \<not> b \<and> orderly sys (os_listen_unix sys) es"
| "orderly sys b (CloseListener # es) \<longleftrightarrow> orderly sys False es"
| "orderly sys b (Cleanup # es) \<longleftrightarrow> settled es \<and> orderly sys False es"
| "orderly sys b (NotifyTerm # es) \<longleftrightarrow> b \<and> settled es \<and> orderly sys b es"
| "orderly sys b (ServeUnix l # es) \<longleftrightarrow> (\<exists>es'. es = Cleanup # es') \<and> settled es \<and> orderly sys b es"
| "orderly sys b (Exit n # es) \<longleftrightarrow> \<not> b"
| "orderly sys b (e # es) \<longleftrightarrow> orderly sys b es"

text \<open>The stages of \<open>main\<close> one by one; \<open>closes\<close>: a stage that fails leaves through \<open>cleanup\<close>.\<close>

definition closes :: "os \<Rightarrow> unit stage \<Rightarrow> bool" where
  "closes sys st \<longleftrightarrow> settled (fst st)
     \<and> (\<forall>es. (if snd st = None then es = [] else settled es \<and> orderly sys True es) \<longrightarrow> orderly sys True (fst st @ es))"

lemma start_connect_closes: "closes sys (start_connect f sys' uni)"
  by (auto simp: closes_def start_connect_def fatal_def proceed_def split: option.split)

lemma start_tcp_closes: "closes sys (start_tcp f sys')"
  by (auto simp: closes_def start_tcp_def fatal_def proceed_def and_then_events and_then_def split: sum.split)

lemma serving_stages_orderly:
  "orderly sys True (fst (serving_stages f sys uni uid))" "settled (fst (serving_stages f sys uni uid))"
proof -
  let ?last = "[ServeUnix \<lparr>expectedUID = word_of_int uid, listener_user = f_user f\<rparr>, Cleanup]"
  have "orderly sys True ?last \<and> settled ?last" by simp
  then have t: "orderly sys True (fst (start_tcp f sys) @ (if snd (start_tcp f sys) = None then [] else ?last))"
    using start_tcp_closes [of sys f sys] by (simp add: closes_def)
  have n: "settled (fst (start_tcp f sys))" "settled (fst (start_connect f sys uni))"
    using start_tcp_closes [of sys f sys] start_connect_closes [of sys f sys uni] by (simp_all add: closes_def)
  show "orderly sys True (fst (serving_stages f sys uni uid))"
    using start_connect_closes [of sys f sys uni] t n by (simp add: closes_def serving_stages_events)
  show "settled (fst (serving_stages f sys uni uid))" using n by (simp add: serving_stages_events)
qed

lemma main_orderly: "orderly sys False (main f sys uni)"
proof (cases rule: main_cases [of f sys uni])
  case (refused msg es code)
  then show ?thesis by auto
next
  case (bound uid)
  then show ?thesis
    by (auto simp: bind_socket_def proceed_def Let_def serving_stages_orderly)
qed

section \<open>The invariant\<close>

fun once_inv :: "once \<Rightarrow> proc \<Rightarrow> bool" where
  "once_inv Fresh s \<longleftrightarrow> cleaned s = []"
| "once_inv (Running g ops) s \<longleftrightarrow> cleaned s @ ops = cleanup_ops \<and> in_cleanup g s"
| "once_inv Completed s \<longleftrightarrow> cleaned s = cleanup_ops"

text \<open>\<open>binding_inv\<close>: what is open will be closed; \<open>closing_inv\<close>: what the operations of \<open>cleanup\<close> have
  brought about; \<open>serving_inv\<close>: where \<open>main\<close> is while the Unix socket is served.\<close>

definition binding_inv :: "os \<Rightarrow> proc \<Rightarrow> bool" where
  "binding_inv sys s \<longleftrightarrow>
     (\<exists>b. orderly sys b (todo s) \<and> (unix_open s \<longrightarrow> b))
   \<and> (socket_file s \<longrightarrow> unix_open s)
   \<and> (signal_pc s \<noteq> Off \<or> once s \<noteq> Fresh \<longrightarrow> settled (todo s))
   \<and> (signal_pc s \<noteq> Off \<and> once s \<noteq> Completed \<longrightarrow> orderly sys True (todo s))"

definition closing_inv :: "proc \<Rightarrow> bool" where
  "closing_inv s \<longleftrightarrow>
     (server_closed s \<longleftrightarrow> CloseServer \<in> set (cleaned s))
   \<and> (CloseUnix \<in> set (cleaned s) \<longrightarrow> \<not> unix_open s)
   \<and> (RemoveSocket \<in> set (cleaned s) \<longrightarrow> \<not> socket_file s)
   \<and> (signal_pc s = Finished \<longrightarrow> once s = Completed)"

definition serving_inv :: "proc \<Rightarrow> bool" where
  "serving_inv s \<longleftrightarrow>
     (unix_tracked s \<longrightarrow> (\<exists>l es. todo s = ServeUnix l # es))
   \<and> (server_closed s \<longrightarrow> tcp s \<noteq> Serving \<and> \<not> (unix_tracked s \<and> unix_open s))"

definition proc_inv :: "os \<Rightarrow> proc \<Rightarrow> bool" where
  "proc_inv sys s \<longleftrightarrow> binding_inv sys s \<and> once_inv (once s) s \<and> closing_inv s \<and> serving_inv s
   \<and> (\<forall>n. ended s = Some (Exited n) \<longrightarrow> \<not> socket_file s \<and> \<not> unix_open s)"

lemmas inv_defs = proc_inv_def binding_inv_def closing_inv_def serving_inv_def

lemma Running_cleaned: "cleaned s @ ops = cleanup_ops \<Longrightarrow> ops \<noteq> [] \<Longrightarrow> RemoveSocket \<notin> set (cleaned s)"
  by (cases "cleaned s"; cases "tl (cleaned s)"; cases "tl (tl (cleaned s))"; cases "tl (tl (tl (cleaned s)))")
    (auto simp: cleanup_ops_def)

lemma launch_inv: "proc_inv sys (launch f sys uni ignored)"
  by (auto simp: inv_defs launch_def intro!: exI [of _ False] main_orderly)

lemma close_unix_simps [simp]:
  "todo (close_unix s) = todo s" "signal_pc (close_unix s) = signal_pc s" "once (close_unix s) = once s"
  "cleaned (close_unix s) = cleaned s" "server_closed (close_unix s) = server_closed s"
  "unix_tracked (close_unix s) = unix_tracked s" "tcp (close_unix s) = tcp s"
  "\<not> unix_open (close_unix s)" "ended (close_unix s) = ended s"
  "socket_file (close_unix s) \<longleftrightarrow> socket_file s \<and> \<not> unix_open s"
  by (simp_all add: close_unix_def)

lemma in_cleanup_cong: "todo s' = todo s \<Longrightarrow> signal_pc s' = signal_pc s \<Longrightarrow> in_cleanup g s' = in_cleanup g s"
  by (cases g) simp_all

text \<open>The events of \<open>main\<close> that are not steps of their own leave the state of the cleanup alone.\<close>

lemma main_effect_frame:
  "once (main_effect sys e s) = once s" "cleaned (main_effect sys e s) = cleaned s"
  "server_closed (main_effect sys e s) = server_closed s" "ended (main_effect sys e s) = ended s"
  "unix_tracked (main_effect sys e s) = unix_tracked s"
  by (induction sys e s rule: main_effect.induct) simp_all

lemma main_effect_signal: "signal_pc (main_effect sys e s) = (if e = NotifyTerm then Awaiting else signal_pc s)"
  by (induction sys e s rule: main_effect.induct) simp_all

lemma main_effect_tcp: "tcp (main_effect sys e s) = Serving \<Longrightarrow> tcp s = Serving"
  by (induction sys e s rule: main_effect.induct) (simp_all split: if_splits)

lemma main_effect_settled:
  "\<not> binds e \<Longrightarrow> unix_open (main_effect sys e s) \<Longrightarrow> unix_open s"
  "\<not> binds e \<Longrightarrow> socket_file (main_effect sys e s) \<Longrightarrow> socket_file s"
  by (induction sys e s rule: main_effect.induct) simp_all

lemma main_effect_file:
  "(socket_file s \<longrightarrow> unix_open s) \<Longrightarrow> socket_file (main_effect sys e s) \<Longrightarrow> unix_open (main_effect sys e s)"
  by (induction sys e s rule: main_effect.induct) (simp_all split: if_splits)

lemma main_effect_orderly:
  assumes "orderly sys b (e # es)" "unix_open s \<longrightarrow> b" "\<not> blocking e"
  shows "\<exists>b'. orderly sys b' es \<and> (unix_open (main_effect sys e s) \<longrightarrow> b')"
proof (cases "e = CloseListener \<or> (\<exists>p. e = ListenUnix p)")
  case True
  then show ?thesis using assms by auto
next
  case False
  then have "orderly sys b es" "unix_open (main_effect sys e s) = unix_open s"
    using assms(1,3) by (cases e; simp)+
  then show ?thesis using assms(2) by auto
qed

lemma binding_invD:
  assumes "binding_inv sys s" "todo s = es"
  obtains b where "orderly sys b es" "unix_open s \<longrightarrow> b" "socket_file s \<longrightarrow> unix_open s"
    "signal_pc s \<noteq> Off \<or> once s \<noteq> Fresh \<longrightarrow> settled es"
    "signal_pc s \<noteq> Off \<and> once s \<noteq> Completed \<longrightarrow> orderly sys True es"
  using assms unfolding binding_inv_def by blast

lemma proc_invD:
  assumes "proc_inv sys s"
  shows "binding_inv sys s" "once_inv (once s) s" "closing_inv s" "serving_inv s"
  using assms by (simp_all add: proc_inv_def)

lemma main_goes_on_inv:
  assumes "proc_inv sys s" "ended s = None" "todo s = e # es" "\<not> blocking e"
  shows "proc_inv sys ((main_effect sys e s)\<lparr>todo := es\<rparr>)"
proof -
  let ?s = "(main_effect sys e s)\<lparr>todo := es\<rparr>"
  note frame = main_effect_frame main_effect_signal
  note inv = proc_invD [OF assms(1)]
  obtain b where b: "orderly sys b (e # es)" "unix_open s \<longrightarrow> b" and sock: "socket_file s \<longrightarrow> unix_open s"
    and quiet: "signal_pc s \<noteq> Off \<or> once s \<noteq> Fresh \<longrightarrow> settled (e # es)"
    and on: "signal_pc s \<noteq> Off \<and> once s \<noteq> Completed \<longrightarrow> orderly sys True (e # es)"
    by (rule binding_invD [OF inv(1) assms(3)])
  have "orderly sys True es" if "signal_pc s \<noteq> Off" "once s \<noteq> Completed"
    using that on quiet assms(4) by (cases e) auto
  moreover have "e = NotifyTerm \<longrightarrow> settled es \<and> orderly sys True es" using b(1) by auto
  ultimately have "binding_inv sys ?s"
    using main_effect_orderly [OF b assms(4)] main_effect_file [OF sock, of sys e] quiet
    by (simp add: binding_inv_def frame)
  moreover have "once_inv (once ?s) ?s"
  proof (cases "once s")
    case (Running g ops)
    then have "in_cleanup g s" "cleaned s @ ops = cleanup_ops" using inv(2) by simp_all
    moreover from this have "g = Signals" using assms(3,4) by (cases g; cases e) auto
    ultimately show ?thesis using Running quiet by (auto simp: frame)
  qed (use inv(2) in \<open>simp_all add: frame\<close>)
  moreover have "closing_inv ?s"
  proof (cases "cleaned s = []")
    case True
    then show ?thesis using inv(3) by (simp add: closing_inv_def frame)
  next
    case False
    then have "once s \<noteq> Fresh" using inv(2) by auto
    then have "\<not> binds e" using quiet by simp
    then show ?thesis
      using inv(3) main_effect_settled [of e sys s] by (auto simp: closing_inv_def frame)
  qed
  moreover have "serving_inv ?s"
  proof -
    have "\<not> unix_tracked s" using inv(4) assms(3,4) by (auto simp: serving_inv_def)
    then show ?thesis
      using inv(4) main_effect_tcp [of sys e s] by (auto simp: serving_inv_def frame)
  qed
  moreover have "ended ?s = None" using assms(2) by (simp add: frame)
  ultimately show ?thesis by (simp add: proc_inv_def)
qed

lemma close_server_simps [simp]:
  "todo (close_server s) = todo s" "signal_pc (close_server s) = signal_pc s"
  "once (close_server s) = once s" "cleaned (close_server s) = cleaned s"
  "unix_tracked (close_server s) = unix_tracked s" "ended (close_server s) = ended s"
  "server_closed (close_server s)" "tcp (close_server s) \<noteq> Serving"
  "unix_open (close_server s) \<longleftrightarrow> unix_open s \<and> \<not> unix_tracked s"
  by (simp_all add: close_server_def Let_def)

lemma close_server_file [simp]:
  "socket_file (close_server s) \<longleftrightarrow> socket_file s \<and> \<not> (unix_tracked s \<and> unix_open s)"
  by (simp add: close_server_def Let_def)

lemma cleanup_effect_frame:
  "todo (cleanup_effect op s) = todo s" "signal_pc (cleanup_effect op s) = signal_pc s"
  "unix_tracked (cleanup_effect op s) = unix_tracked s" "ended (cleanup_effect op s) = ended s"
  "cleaned (cleanup_effect op s) = cleaned s"
  by (cases op, simp_all)+

lemma cleanup_effect_closed:
  "unix_open (cleanup_effect op s) \<Longrightarrow> unix_open s" "socket_file (cleanup_effect op s) \<Longrightarrow> socket_file s"
  by (cases op, simp_all)+

lemma cleanup_effect_server: "server_closed (cleanup_effect op s) \<longleftrightarrow> server_closed s \<or> op = CloseServer"
  by (cases op) simp_all

lemma cleanup_effect_file:
  "(socket_file s \<longrightarrow> unix_open s) \<Longrightarrow> socket_file (cleanup_effect op s) \<Longrightarrow> unix_open (cleanup_effect op s)"
  by (cases op) auto

lemma cleanup_effect_serving:
  assumes "serving_inv s"
  shows "serving_inv (cleanup_effect op s)"
  using assms by (cases op) (auto simp: serving_inv_def)

lemma once_runs_inv:
  assumes "proc_inv sys s" "ended s = None" "once s = Running g (op # ops)"
  shows "proc_inv sys ((cleanup_effect op s)\<lparr>once := Running g ops, cleaned := cleaned s @ [op]\<rparr>)"
proof -
  let ?s = "(cleanup_effect op s)\<lparr>once := Running g ops, cleaned := cleaned s @ [op]\<rparr>"
  note inv = proc_invD [OF assms(1)] and frame = cleanup_effect_frame
  obtain b where b: "orderly sys b (todo s)" "unix_open s \<longrightarrow> b" and sock: "socket_file s \<longrightarrow> unix_open s"
    and quiet: "signal_pc s \<noteq> Off \<or> once s \<noteq> Fresh \<longrightarrow> settled (todo s)"
    and on: "signal_pc s \<noteq> Off \<and> once s \<noteq> Completed \<longrightarrow> orderly sys True (todo s)"
    by (rule binding_invD [OF inv(1) refl])
  have "binding_inv sys ?s"
    unfolding binding_inv_def
    using b quiet on assms(3) cleanup_effect_file [OF sock, of op] cleanup_effect_closed(1) [of op s]
    by (auto simp: frame)
  moreover have "once_inv (once ?s) ?s"
    using inv(2) assms(3) by (cases g) (simp_all add: frame)
  moreover have "closing_inv ?s"
  proof -
    have "\<not> unix_open (cleanup_effect op s)" if "CloseUnix \<in> set (cleaned s @ [op])"
      using that inv(3) cleanup_effect_closed(1) [of op s] by (auto simp: closing_inv_def)
    moreover have "\<not> socket_file (cleanup_effect op s)" if "RemoveSocket \<in> set (cleaned s @ [op])"
      using that inv(3) cleanup_effect_closed(2) [of op s] by (auto simp: closing_inv_def)
    moreover have "signal_pc s \<noteq> Finished" using inv(3) assms(3) by (auto simp: closing_inv_def)
    ultimately show ?thesis
      using inv(3) by (simp add: closing_inv_def frame cleanup_effect_server) blast
  qed
  moreover have "serving_inv ?s"
    using cleanup_effect_serving [OF inv(4), of op] by (simp add: serving_inv_def)
  ultimately show ?thesis using assms(2) by (simp add: proc_inv_def frame)
qed

text \<open>The two ways out of \<open>server.Serve\<close>.\<close>

lemma unix_leaves_inv:
  assumes "proc_inv sys s" "ended s = None" "todo s = ServeUnix l # es"
  shows "proc_inv sys ((close_unix s)\<lparr>todo := es, unix_tracked := False\<rparr>)"
proof -
  let ?s = "(close_unix s)\<lparr>todo := es, unix_tracked := False\<rparr>"
  note inv = proc_invD [OF assms(1)]
  obtain b where b: "orderly sys b (ServeUnix l # es)" and sock: "socket_file s \<longrightarrow> unix_open s"
    by (rule binding_invD [OF inv(1) assms(3)])
  have "binding_inv sys ?s" using b sock by (auto simp: binding_inv_def)
  moreover have "once_inv (once ?s) ?s"
  proof (cases "once s")
    case (Running g ops)
    then show ?thesis using inv(2) assms(3) by (cases g) simp_all
  qed (use inv(2) in simp_all)
  moreover have "closing_inv ?s" using inv(3) by (auto simp: closing_inv_def)
  moreover have "serving_inv ?s" using inv(4) by (auto simp: serving_inv_def)
  ultimately show ?thesis using assms(2) by (simp add: proc_inv_def)
qed

text \<open>Fields that the invariant does not speak of.\<close>

lemma in_cleanup_frame [simp]:
  "in_cleanup g (s\<lparr>ended := x\<rparr>) = in_cleanup g s" "in_cleanup g (s\<lparr>unix_broken := c\<rparr>) = in_cleanup g s"
  "in_cleanup g (s\<lparr>tcp_broken := c\<rparr>) = in_cleanup g s" "in_cleanup g (s\<lparr>sig_pending := c\<rparr>) = in_cleanup g s"
  "in_cleanup g (s\<lparr>hup_pending := c\<rparr>) = in_cleanup g s" "in_cleanup g (s\<lparr>allow := a\<rparr>) = in_cleanup g s"
  "in_cleanup g (s\<lparr>tcp := t\<rparr>) = in_cleanup g s" "in_cleanup g (s\<lparr>unix_tracked := c\<rparr>) = in_cleanup g s"
  by (cases g, simp_all)+

lemma once_inv_frame [simp]:
  "once_inv x (s\<lparr>ended := e\<rparr>) = once_inv x s" "once_inv x (s\<lparr>unix_broken := c\<rparr>) = once_inv x s"
  "once_inv x (s\<lparr>tcp_broken := c\<rparr>) = once_inv x s" "once_inv x (s\<lparr>sig_pending := c\<rparr>) = once_inv x s"
  "once_inv x (s\<lparr>hup_pending := c\<rparr>) = once_inv x s" "once_inv x (s\<lparr>allow := a\<rparr>) = once_inv x s"
  "once_inv x (s\<lparr>tcp := t\<rparr>) = once_inv x s" "once_inv x (s\<lparr>unix_tracked := c\<rparr>) = once_inv x s"
  by (cases x, simp_all)+

lemma ends_inv:
  assumes "proc_inv sys s" "\<And>b. orderly sys b (todo s) \<Longrightarrow> \<not> b \<or> once s = Completed"
  shows "proc_inv sys (s\<lparr>ended := Some (Exited n)\<rparr>)"
proof -
  note inv = proc_invD [OF assms(1)]
  obtain b where b: "orderly sys b (todo s)" "unix_open s \<longrightarrow> b" and sock: "socket_file s \<longrightarrow> unix_open s"
    by (rule binding_invD [OF inv(1) refl])
  from assms(2) [OF b(1)] have "\<not> unix_open s"
  proof
    assume "once s = Completed"
    then show ?thesis using inv(2,3) by (simp add: closing_inv_def cleanup_ops_def)
  qed (use b in blast)
  then show ?thesis using inv sock by (simp add: inv_defs)
qed

lemma prog_step_inv:
  assumes "prog_step sys uni s s'" "proc_inv sys s"
  shows "proc_inv sys s'"
  using assms(1)
proof cases
  case (main_goes_on e es)
  then show ?thesis using main_goes_on_inv assms(2) by blast
next
  case (main_exits n es)
  then show ?thesis using ends_inv [OF assms(2)] by simp
next
  case main_returns
  then show ?thesis using ends_inv [OF assms(2)] by simp
next
  case (unix_refused l es)
  then have "s'\<lparr>unix_tracked := False\<rparr> = s'" by (cases s') simp
  then show ?thesis using unix_refused(1) unix_leaves_inv [OF assms(2) unix_refused(2,3)] by simp
next
  case (unix_returns l es)
  then show ?thesis using unix_leaves_inv [OF assms(2), of l es] by simp
next
  case (once_runs g op ops)
  then show ?thesis using once_runs_inv [OF assms(2)] by simp
next
  case signal_exits
  then have "once s = Completed" using proc_invD(3) [OF assms(2)] by (simp add: closing_inv_def)
  then show ?thesis using ends_inv [OF assms(2)] signal_exits(1) by simp
next
  case (once_enters g)
  then show ?thesis using assms(2) by (cases g) (auto simp: inv_defs split: list.splits main_event.splits)
next
  case (main_cleaned es)
  then have "\<not> unix_open s" using assms(2) by (simp add: inv_defs cleanup_ops_def)
  moreover obtain b where "orderly sys b (Cleanup # es)"
    using binding_invD [OF proc_invD(1) [OF assms(2)] main_cleaned(3)] by blast
  ultimately show ?thesis
    using main_cleaned proc_invD [OF assms(2)] by (auto simp: inv_defs)
next
  case once_ends
  then show ?thesis using proc_invD [OF assms(2)] by (simp add: inv_defs)
next
  case signal_received
  have "in_cleanup g (s\<lparr>signal_pc := Cleaning, sig_pending := False\<rparr>)" if "in_cleanup g s" for g
    using that signal_received(3) by (cases g) simp_all
  then have "once_inv (once s) (s\<lparr>signal_pc := Cleaning, sig_pending := False\<rparr>)"
    using proc_invD(2) [OF assms(2)] by (cases "once s") simp_all
  then show ?thesis
    using signal_received proc_invD [OF assms(2)]
    by (simp add: inv_defs)
next
  case signal_cleaned
  then show ?thesis
    using proc_invD [OF assms(2)] by (simp add: inv_defs)
qed (use proc_invD [OF assms(2)] in \<open>simp_all add: inv_defs\<close>)

lemma env_step_inv:
  assumes "env_step s s'" "proc_inv sys s"
  shows "proc_inv sys s'"
  using assms by cases (simp_all add: inv_defs)

lemma runs_inv: "runs f sys uni s \<Longrightarrow> proc_inv sys s"
  by (induction rule: runs.induct) (blast intro: launch_inv prog_step_inv env_step_inv)+

section \<open>Progress\<close>

fun once_work :: "once \<Rightarrow> nat" where
  "once_work Fresh = 6"
| "once_work (Running g ops) = Suc (length ops)"
| "once_work Completed = 0"

fun signal_work :: "signal_pc \<Rightarrow> nat" where
  "signal_work Finished = 0"
| "signal_work Cleaning = 1"
| "signal_work _ = 2"

fun tcp_work :: "tcp_state \<Rightarrow> nat" where
  "tcp_work Stopped = 0"
| "tcp_work Serving = 1"
| "tcp_work Closing = 1"
| "tcp_work _ = 2"

text \<open>An upper bound of the steps that the program has left, if the environment leaves it alone.\<close>

definition work :: "proc \<Rightarrow> nat" where
  "work s =
     (if ended s \<noteq> None then 0
      else 1 + 3 * length (todo s) + (if unix_tracked s then 0 else 1) + once_work (once s)
        + signal_work (signal_pc s) + tcp_work (tcp s) + (if hup_pending s then 1 else 0))"

lemma close_unix_frame [simp]: "hup_pending (close_unix s) = hup_pending s" "hup_pending (close_server s) = hup_pending s"
  by (simp_all add: close_unix_def close_server_def Let_def)

lemma main_effect_work:
  "tcp_work (tcp (main_effect sys e s)) \<le> tcp_work (tcp s) + 2"
  "hup_pending (main_effect sys e s) = hup_pending s"
  by (induction sys e s rule: main_effect.induct) (simp_all split: if_splits)

lemma cleanup_effect_work:
  "tcp_work (tcp (cleanup_effect op s)) = tcp_work (tcp s)" "hup_pending (cleanup_effect op s) = hup_pending s"
  by (cases op, simp_all add: close_server_def close_unix_def Let_def)+

lemma prog_step_work:
  assumes "prog_step sys uni s s'"
  shows "work s' < work s"
  using assms
proof cases
  case (main_goes_on e es)
  have "signal_work (signal_pc (main_effect sys e s)) \<le> signal_work (signal_pc s) + (if e = NotifyTerm then 2 else 0)"
    by (simp add: main_effect_signal)
  moreover have "e = NotifyTerm \<Longrightarrow> tcp (main_effect sys e s) = tcp s" by simp
  ultimately show ?thesis
    using main_goes_on main_effect_work [of sys e s] by (auto simp: work_def main_effect_frame split: if_splits)
next
  case (once_runs g op ops)
  then show ?thesis by (simp add: work_def cleanup_effect_frame cleanup_effect_work)
qed (auto simp: work_def cleanup_ops_def)

text \<open>Where the program waits: in \<open>Accept\<close>, with no signal to handle.\<close>

definition at_rest :: "proc \<Rightarrow> bool" where
  "at_rest s \<longleftrightarrow> (\<exists>l es. todo s = ServeUnix l # es) \<and> unix_tracked s \<and> unix_open s \<and> \<not> unix_broken s
   \<and> (signal_pc s = Off \<or> signal_pc s = Awaiting \<and> \<not> sig_pending s)"

lemma signals_progress:
  assumes "ended s = None" "signal_pc s \<noteq> Off" "signal_pc s = Awaiting \<longrightarrow> sig_pending s"
    and "\<And>g ops. once s \<noteq> Running g ops"
  shows "\<exists>s'. prog_step sys uni s s'"
proof (cases "signal_pc s")
  case Cleaning
  then have "in_cleanup Signals s" by simp
  then show ?thesis
    using assms(1,4) Cleaning by (cases "once s") (blast intro: prog_step.intros)+
qed (use assms in \<open>blast intro: prog_step.intros\<close>)+

lemma main_progress:
  assumes "ended s = None" "\<And>g ops. once s \<noteq> Running g ops"
    and "\<not> (\<exists>l es. todo s = ServeUnix l # es \<and> unix_tracked s \<and> unix_open s \<and> \<not> unix_broken s)"
  shows "\<exists>s'. prog_step sys uni s s'"
proof (cases "todo s")
  case Nil
  then show ?thesis using main_returns [OF assms(1)] by blast
next
  case (Cons e es)
  show ?thesis
  proof (cases "blocking e")
    case False
    then show ?thesis using main_goes_on [OF assms(1) Cons] by blast
  next
    case True
    then consider l where "e = ServeUnix l" | "e = Cleanup" | n where "e = Exit n" by (cases e) auto
    then show ?thesis
    proof cases
      case (1 l)
      then show ?thesis
        using assms(1,3) Cons unix_tracks unix_refused unix_returns by metis
    next
      case 2
      then have "in_cleanup Main s" using Cons by simp
      then show ?thesis
        using assms(1,2) Cons 2 by (cases "once s") (blast intro: prog_step.intros)+
    next
      case (3 n)
      then show ?thesis using main_exits [OF assms(1)] Cons by blast
    qed
  qed
qed

lemma progress:
  assumes "ended s = None" "\<not> at_rest s"
  shows "\<exists>s'. prog_step sys uni s s'"
proof (cases "once s")
  case (Running g ops)
  then show ?thesis using assms(1) by (cases ops) (blast intro: once_ends once_runs)+
qed (use assms main_progress [of s sys uni] signals_progress [of s sys uni] in \<open>auto simp: at_rest_def\<close>)

text \<open>A signal for the end of the program is waiting or being handled.\<close>

definition stopping :: "proc \<Rightarrow> bool" where
  "stopping s \<longleftrightarrow> signal_pc s = Awaiting \<and> sig_pending s \<or> signal_pc s \<in> {Cleaning, Finished}"

lemma close_pending [simp]:
  "sig_pending (close_unix s) = sig_pending s" "sig_pending (close_server s) = sig_pending s"
  by (simp_all add: close_unix_def close_server_def Let_def)

lemma main_effect_pending [simp]: "sig_pending (main_effect sys e s) = sig_pending s"
  by (induction sys e s rule: main_effect.induct) simp_all

lemma cleanup_effect_pending [simp]: "sig_pending (cleanup_effect op s) = sig_pending s"
  by (cases op) simp_all

lemma stopping_step:
  assumes "prog_step sys uni s s'" "proc_inv sys s" "stopping s"
  shows "stopping s'"
  using assms(1)
proof cases
  case (main_goes_on e es)
  have "signal_pc s \<noteq> Off" using assms(3) by (auto simp: stopping_def)
  then have "e \<noteq> NotifyTerm"
    using binding_invD [OF proc_invD(1) [OF assms(2)] main_goes_on(3)] by fastforce
  then show ?thesis
    using assms(3) main_goes_on(1) by (simp add: stopping_def main_effect_signal)
next
  case (once_runs g op ops)
  then show ?thesis using assms(3) by (simp add: stopping_def cleanup_effect_frame)
qed (use assms(3) in \<open>auto simp: stopping_def\<close>)

lemma prog_step_todo:
  assumes "prog_step sys uni s s'"
  shows "length (todo s') \<le> length (todo s)"
  using assms by cases (simp_all add: cleanup_effect_frame)

lemma stage_lengths:
  "length (fst (bind_socket f sys uid)) \<le> 9" "length (fst (start_connect f sys uni)) \<le> 5"
  "length (fst (start_tcp f sys)) \<le> 4"
  by (simp_all add: bind_socket_def start_connect_def start_tcp_def Let_def split: option.split sum.split)

lemma main_length: "length (main f sys uni) \<le> 21"
proof (cases rule: main_cases [of f sys uni])
  case (bound uid)
  then show ?thesis
    using stage_lengths(1) [of f sys uid] stage_lengths(2) [of f sys uni] stage_lengths(3) [of f sys]
    by (simp add: serving_stages_events)
qed auto

lemma runs_work:
  assumes "runs f sys uni s"
  shows "work s \<le> 76"
proof -
  have "length (todo s) \<le> 21"
    using assms
  proof (induction rule: runs.induct)
    case (starts ignored)
    then show ?case by (simp add: launch_def main_length)
  next
    case (steps s s')
    then show ?case using prog_step_todo by fastforce
  next
    case (moves s s')
    then show ?case by (auto elim: env_stepE)
  qed
  moreover have "once_work (once s) \<le> 6"
  proof (cases "once s")
    case (Running g ops)
    then have "cleaned s @ ops = cleanup_ops" using proc_invD(2) [OF runs_inv [OF assms]] by simp
    then have "length (cleaned s @ ops) = 4" by (simp add: cleanup_ops_def)
    then show ?thesis using Running by simp
  qed simp_all
  moreover have "signal_work (signal_pc s) \<le> 2" by (cases "signal_pc s") simp_all
  moreover have "tcp_work (tcp s) \<le> 2" by (cases "tcp s") simp_all
  ultimately show ?thesis by (simp add: work_def)
qed

section \<open>A scheduler\<close>

text \<open>The steps as functions, one per goroutine, and a run of them in a fixed order of preference, with
  which concrete runs are computed.\<close>

definition once_next :: "proc \<Rightarrow> proc option" where
  "once_next s =
     (case once s of
        Running g (op # ops) \<Rightarrow> Some ((cleanup_effect op s)\<lparr>once := Running g ops, cleaned := cleaned s @ [op]\<rparr>)
      | Running g [] \<Rightarrow> Some (s\<lparr>once := Completed\<rparr>)
      | _ \<Rightarrow> None)"

definition signal_next :: "proc \<Rightarrow> proc option" where
  "signal_next s =
     (case signal_pc s of
        Off \<Rightarrow> None
      | Awaiting \<Rightarrow> if sig_pending s then Some (s\<lparr>signal_pc := Cleaning, sig_pending := False\<rparr>) else None
      | Cleaning \<Rightarrow>
          (case once s of
             Fresh \<Rightarrow> Some (s\<lparr>once := Running Signals cleanup_ops\<rparr>)
           | Running g ops \<Rightarrow> None
           | Completed \<Rightarrow> Some (s\<lparr>signal_pc := Finished\<rparr>))
      | Finished \<Rightarrow> Some (s\<lparr>ended := Some (Exited 0)\<rparr>))"

definition main_next :: "os \<Rightarrow> proc \<Rightarrow> proc option" where
  "main_next sys s =
     (case todo s of
        [] \<Rightarrow> Some (s\<lparr>ended := Some (Exited 0)\<rparr>)
      | e # es \<Rightarrow>
          if \<not> blocking e then Some ((main_effect sys e s)\<lparr>todo := es\<rparr>)
          else (case e of
             Exit n \<Rightarrow> Some (s\<lparr>ended := Some (Exited n)\<rparr>)
           | Cleanup \<Rightarrow>
               (case once s of
                  Fresh \<Rightarrow> Some (s\<lparr>once := Running Main cleanup_ops\<rparr>)
                | Running g ops \<Rightarrow> None
                | Completed \<Rightarrow> Some (s\<lparr>todo := es\<rparr>))
           | ServeUnix l \<Rightarrow>
               if \<not> unix_tracked s then
                 Some (if server_closed s then (close_unix s)\<lparr>todo := es\<rparr> else s\<lparr>unix_tracked := True\<rparr>)
               else if unix_broken s \<or> \<not> unix_open s then Some ((close_unix s)\<lparr>todo := es, unix_tracked := False\<rparr>)
               else None
           | _ \<Rightarrow> None))"

definition next_step :: "os \<Rightarrow> proc \<Rightarrow> proc option" where
  "next_step sys s =
     (if ended s \<noteq> None then None
      else case once_next s of
        Some s' \<Rightarrow> Some s'
      | None \<Rightarrow> (case signal_next s of Some s' \<Rightarrow> Some s' | None \<Rightarrow> main_next sys s))"

lemma next_step_sound: "next_step sys s = Some s' \<Longrightarrow> prog_step sys uni s s'"
proof -
  assume n: "next_step sys s = Some s'"
  then have a: "ended s = None" by (simp add: next_step_def split: if_splits)
  have o: "once_next s = Some s' \<Longrightarrow> prog_step sys uni s s'"
    using a by (auto simp: once_next_def intro: prog_step.intros split: once.splits list.splits)
  have g: "signal_next s = Some s' \<Longrightarrow> prog_step sys uni s s'"
    using a once_enters [OF a, of Signals sys uni]
    by (auto simp: signal_next_def intro: prog_step.intros split: signal_pc.splits once.splits if_splits)
  have m: "prog_step sys uni s s'" if "main_next sys s = Some s'"
  proof (cases "\<exists>e es. todo s = e # es \<and> \<not> blocking e")
    case True
    then show ?thesis using that main_goes_on [OF a] by (auto simp: main_next_def simp del: main_effect.simps)
  next
    case False
    then show ?thesis
      using that a once_enters [OF a, of Main sys uni]
      by (auto simp: main_next_def intro: prog_step.intros
          split: list.splits main_event.splits once.splits if_splits)
  qed
  show ?thesis using n a o g m by (auto simp: next_step_def split: option.splits)
qed

fun run_for :: "os \<Rightarrow> nat \<Rightarrow> proc \<Rightarrow> proc" where
  "run_for sys 0 s = s"
| "run_for sys (Suc n) s = (case next_step sys s of None \<Rightarrow> s | Some s' \<Rightarrow> run_for sys n s')"

lemma run_for_runs: "runs f sys uni s \<Longrightarrow> runs f sys uni (run_for sys n s)"
proof (induction n arbitrary: s)
  case (Suc n)
  show ?case
  proof (cases "next_step sys s")
    case (Some s')
    then show ?thesis using Suc.IH [OF runs.steps [OF Suc.prems next_step_sound]] by simp
  qed (use Suc.prems in simp)
qed simp

text \<open>A run up to the point where the sample process serves, and one through its shutdown.\<close>

definition plain_served :: proc where
  "plain_served = run_for plain_os 20 (launch plain_flags plain_os (\<lambda>r. r) False)"

lemma plain_served_rests: "ended plain_served = None \<and> signal_pc plain_served = Awaiting"
  by code_simp

lemma plain_served_runs: "runs plain_flags plain_os (\<lambda>r. r) plain_served"
  unfolding plain_served_def by (rule run_for_runs [OF runs.starts])

abbreviation plain_signalled :: proc where
  "plain_signalled \<equiv> plain_served\<lparr>sig_pending := True\<rparr>"

lemma plain_signalled_runs: "runs plain_flags plain_os (\<lambda>r. r) plain_signalled"
  by (rule runs.moves [OF plain_served_runs sigterm]) (simp_all add: plain_served_rests)

definition plain_stopped :: proc where
  "plain_stopped = run_for plain_os 20 plain_signalled"

lemma plain_stopped_ended:
  "ended plain_stopped = Some (Exited 0) \<and> cleaned plain_stopped \<noteq> [] \<and> signal_pc plain_stopped \<noteq> Off"
  by code_simp

lemma plain_stopped_runs: "runs plain_flags plain_os (\<lambda>r. r) plain_stopped"
  unfolding plain_stopped_def by (rule run_for_runs [OF plain_signalled_runs])

section \<open>Properties\<close>

text \<open>C25. Whatever the interleaving of \<open>main\<close> with the signals, the body of \<open>cleanup\<close> runs at most once and
  in order (server, Unix listener, CONNECT listener, socket).  From its first step on no connection is
  accepted any more on the Unix socket or on the TCP port; from the second on the Unix listener is
  closed, and from the fourth on its file is gone.  The CONNECT listener is closed by the third
  step only, so nothing is said of it before.\<close>

theorem cleanup_once:
  assumes "runs f sys uni s"
  shows "prefix (cleaned s) [CloseServer, CloseUnix, CloseConnect, RemoveSocket]
    \<and> (if cleaned s = [] then True else tcp s \<noteq> Serving \<and> \<not> (unix_tracked s \<and> unix_open s))
    \<and> (if CloseUnix \<in> set (cleaned s) then \<not> unix_open s else True)
    \<and> (if RemoveSocket \<in> set (cleaned s) then \<not> socket_file s else True)"
proof -
  note inv = proc_invD [OF runs_inv [OF assms]]
  have p: "prefix (cleaned s) cleanup_ops" using inv(2) by (cases "once s") (auto intro: prefixI [OF sym])
  then have "CloseServer \<in> set (cleaned s)" if "cleaned s \<noteq> []"
    using that by (cases "cleaned s") (auto simp: cleanup_ops_def)
  then show ?thesis
    using p inv(3,4) by (auto simp: closing_inv_def serving_inv_def cleanup_ops_def)
qed

theorem cleanup_once_witness:
  "\<exists>s. runs plain_flags plain_os (\<lambda>r. r) s \<and> cleaned s \<noteq> []
     \<and> prefix (cleaned s) [CloseServer, CloseUnix, CloseConnect, RemoveSocket]
     \<and> tcp s \<noteq> Serving \<and> \<not> (unix_tracked s \<and> unix_open s)"
  using cleanup_once [OF plain_stopped_runs] plain_stopped_runs plain_stopped_ended by auto

text \<open>C14. However the program ends by itself (by a return of \<open>main\<close>, a fatal error or after a signal), its
  socket is closed and gone from the file system; and once the signals are handled it ends only
  after the whole cleanup.\<close>

theorem exit_leaves_no_socket:
  assumes "runs f sys uni s" "ended s = Some (Exited n)"
  shows "\<not> socket_file s \<and> \<not> unix_open s
    \<and> (signal_pc s = Off \<or> cleaned s = [CloseServer, CloseUnix, CloseConnect, RemoveSocket])"
proof -
  have c: "cleaned s = cleanup_ops" if "signal_pc s \<noteq> Off"
    using assms that
  proof (induction arbitrary: n rule: runs.induct)
    case (steps s s')
    note inv = proc_invD [OF runs_inv [OF steps(1)]]
    have on: "once s \<noteq> Completed \<Longrightarrow> signal_pc s \<noteq> Off \<Longrightarrow> orderly sys True (todo s)"
      by (rule binding_invD [OF inv(1) refl]) blast
    have all: "once s = Completed \<Longrightarrow> cleaned s = cleanup_ops" using inv(2) by simp
    from steps(2) show ?case
    proof cases
      case signal_exits
      then show ?thesis using inv(3) all by (simp add: closing_inv_def)
    qed (use steps on all in \<open>auto simp: main_effect_frame cleanup_effect_frame\<close>)
  next
    case (moves s s')
    then show ?case by (auto elim: env_stepE)
  qed (simp add: launch_def)
  then show ?thesis using runs_inv [OF assms(1)] assms(2) by (auto simp: proc_inv_def cleanup_ops_def)
qed

theorem exit_leaves_no_socket_witness:
  "\<exists>s. runs plain_flags plain_os (\<lambda>r. r) s \<and> ended s = Some (Exited 0) \<and> \<not> socket_file s
     \<and> cleaned s = [CloseServer, CloseUnix, CloseConnect, RemoveSocket]"
  using exit_leaves_no_socket [OF plain_stopped_runs conjunct1 [OF plain_stopped_ended]]
    plain_stopped_runs plain_stopped_ended by auto

text \<open>C15. Once a signal for the end has arrived, the program ends: it takes at most 76 more steps, in
  whatever order its goroutines move, and it gets stuck nowhere before it has exited; so the two
  calls of \<open>cleanup\<close> cannot block each other.\<close>

theorem shutdown_completes:
  assumes "runs f sys uni s" "stopping s" "ended s = None" "(prog_step sys uni ^^ n) s s'"
  shows "n \<le> 76 \<and> ((\<exists>s''. prog_step sys uni s' s'') \<or> (\<exists>c. ended s' = Some (Exited c)))"
proof -
  have "n + work s' \<le> work s \<and> stopping s' \<and> runs f sys uni s' \<and> ended s' \<noteq> Some Killed"
    using assms(4)
  proof (induction n arbitrary: s')
    case (Suc n)
    from Suc.prems obtain t where t: "(prog_step sys uni ^^ n) s t" "prog_step sys uni t s'" by auto
    from Suc.IH [OF t(1)] have "runs f sys uni t" "stopping t" "n + work t \<le> work s" by simp_all
    moreover from t(2) have "ended s' \<noteq> Some Killed"
      by cases (simp_all add: main_effect_frame cleanup_effect_frame)
    ultimately show ?case
      using prog_step_work [OF t(2)] stopping_step [OF t(2)] runs_inv runs.steps [OF _ t(2)] by fastforce
  qed (use assms in simp)
  moreover have "stopping s' \<Longrightarrow> \<not> at_rest s'" by (auto simp: stopping_def at_rest_def)
  moreover have "ended s' = None \<or> ended s' = Some Killed \<or> (\<exists>c. ended s' = Some (Exited c))"
    by (cases "ended s'"; cases "the (ended s')") auto
  ultimately show ?thesis
    using runs_work [OF assms(1)] progress [of s' sys uni] by auto
qed

theorem shutdown_completes_witness:
  "\<exists>s s'. runs plain_flags plain_os (\<lambda>r. r) s \<and> stopping s \<and> (prog_step plain_os (\<lambda>r. r) ^^ 1) s s'
     \<and> (\<exists>s''. prog_step plain_os (\<lambda>r. r) s' s'')"
proof -
  let ?s' = "plain_signalled\<lparr>signal_pc := Cleaning, sig_pending := False\<rparr>"
  have st: "stopping plain_signalled" and e: "ended plain_signalled = None"
    using plain_served_rests by (simp_all add: stopping_def)
  have "prog_step plain_os (\<lambda>r. r) plain_signalled ?s'"
    using signal_received [OF e] plain_served_rests by simp
  then have one: "(prog_step plain_os (\<lambda>r. r) ^^ 1) plain_signalled ?s'" by auto
  have "ended ?s' = None" using e by simp
  then have "\<exists>s''. prog_step plain_os (\<lambda>r. r) ?s' s''"
    using shutdown_completes [OF plain_signalled_runs st e one] by simp
  then show ?thesis using plain_signalled_runs st one by blast
qed

end
