(* ===== verification/System.thy ===== *)
theory System
  imports Samples Lifecycle
begin

text \<open>
  The components together: the requests of one connection, which \<open>net/http\<close> hands to the handler one
  after the other, and the way of a request from the accepted connection to the daemon.
\<close>

section \<open>The requests of a connection\<close>

text \<open>After one of these events the server reads no further request from the connection: it was taken
  over by the handler or the reverse proxy, or it is closed because the handler panicked.\<close>

fun takes_over :: "event \<Rightarrow> bool" where
  "takes_over EHijack \<longleftrightarrow> True"
| "takes_over (EUpgrade res) \<longleftrightarrow> True"
| "takes_over (EPanic msg) \<longleftrightarrow> True"
| "takes_over _ \<longleftrightarrow> False"

fun serve_connection :: "handler \<Rightarrow> (world \<times> request) list \<Rightarrow> event list list" where
  "serve_connection h [] = []"
| "serve_connection h ((w, r) # rest) =
     (let es = ServeHTTP h w r
      in es # (if list_ex takes_over es then [] else serve_connection h rest))"

lemma serve_connection_served:
  "es \<in> set (serve_connection h reqs) \<Longrightarrow> \<exists>(w, r) \<in> set reqs. es = ServeHTTP h w r"
  by (induction h reqs rule: serve_connection.induct) (auto simp: Let_def split: if_splits)

lemma relay_hijacks: "ERelay \<in> set (ServeHTTP h w r) \<Longrightarrow> EHijack \<in> set (ServeHTTP h w r)"
  using relay_streams [of h w r] by (auto simp: handleStreaming_def split: if_splits)

lemma takes_over_last:
  assumes "i < length (serve_connection h reqs)" "list_ex takes_over (serve_connection h reqs ! i)"
  shows "Suc i = length (serve_connection h reqs)"
  using assms
proof (induction h reqs arbitrary: i rule: serve_connection.induct)
  case (2 h w r rest)
  show ?case
  proof (cases i)
    case 0
    then show ?thesis using "2.prems" by (simp add: Let_def)
  next
    case (Suc j)
    then have "\<not> list_ex takes_over (ServeHTTP h w r)"
      using "2.prems"(1) by (auto simp: Let_def split: if_splits)
    then show ?thesis using 2 Suc by (simp add: Let_def)
  qed
qed simp

lemma serve_connection_nth:
  "i < length (serve_connection h reqs) \<Longrightarrow>
     i < length reqs \<and> (\<exists>w r. reqs ! i = (w, r) \<and> serve_connection h reqs ! i = ServeHTTP h w r)"
proof (induction h reqs arbitrary: i rule: serve_connection.induct)
  case (2 h w r rest)
  then show ?case by (cases i) (auto simp: Let_def split: if_splits)
qed simp

definition alice_flags :: flags where
  "alice_flags = plain_flags\<lparr>f_upstream := ''/var/run/docker.sock''\<rparr>"

end
