(* ===== verification/Spec2Isabelle.thy ===== *)
theory Spec2Isabelle
  imports HandlerProps Relay TlsInit HostLock System
begin

text \<open>
  Verification of the isolator docker proxy (\<open>cmd/docker-proxy\<close>, \<open>internal/proxy\<close>).

  \<^bold>\<open>The program.\<close>  One proxy process runs per sandboxed user, as root, in front of the Docker daemon's
  socket.  It accepts connections of that user only, checks every request against an endpoint
  allowlist, validates and rewrites the bodies that create containers and networks, asks the
  daemon for the owner of a container or exec instance before it passes an action on, filters
  the container list, and relays streaming endpoints as raw bytes.  Beside that it can run a
  CONNECT proxy with a host allowlist, and it generates its own certificates.

  \<^bold>\<open>Theories and sources.\<close>
  \<^item> \<open>Prelude\<close>: byte strings, the functions of \<open>strings\<close>, errors as sums (\<open>res_bind\<close>, \<open>res_map\<close>,
    \<open>first_error\<close>), decimal numerals.
  \<^item> \<open>Regex\<close>, \<open>Url\<close>, \<open>Allowlist\<close>: \<open>allowlist.go\<close>.  Regular expressions by derivatives with their
    languages, \<open>net/url\<close> as far as it is used, the routes and the chain of first matches, compared
    with the endpoint tables of the specification (\<open>endpoint_spec\<close>).
  \<^item> \<open>Paths\<close>: \<open>paths.go\<close>.  \<open>filepath.Clean\<close> and \<open>EvalSymlinks\<close> over a file tree, \<open>ResolvePath\<close>,
    \<open>IsPathAllowed\<close>; the locale \<open>path_policy\<close> is what the body checks need of them.
  \<^item> \<open>Utf8\<close>, \<open>Number\<close>, \<open>Json\<close>, \<open>Codec\<close>: \<open>encoding/json\<close> on \<open>interface{}\<close> values, with float64 numbers,
    string coercion, the depth limit and the order of keys; what is decoded is well formed
    (\<open>unmarshal_good\<close>) and what is marshalled decodes to itself (\<open>unmarshal_marshal\<close>).
  \<^item> \<open>Create\<close>, \<open>NetworkCreate\<close>, \<open>Bodies\<close>, \<open>CreateProps\<close>: \<open>create.go\<close> and \<open>network_create.go\<close>, on decoded
    values and on bytes; the locale \<open>body_check\<close> is the contract that both share.
  \<^item> \<open>Ownership\<close>: \<open>ownership.go\<close>; the locale \<open>ownership_check\<close> is the contract of the two checks.
  \<^item> \<open>Http\<close>, \<open>Handler\<close>, \<open>Mediation\<close>, \<open>Samples\<close>, \<open>HandlerProps\<close>: \<open>proxy.go\<close>.  \<open>ServeHTTP\<close> is the list of
    events that a request produces; \<open>Mediation\<close> has the facts, \<open>Samples\<close> concrete requests,
    \<open>HandlerProps\<close> the properties.
  \<^item> \<open>Relay\<close>: \<open>relay.go\<close> as a transition system, with the abstract channel that it refines.
  \<^item> \<open>Connect\<close>, \<open>HostLock\<close>: \<open>connect.go\<close>; the second has \<open>Contains\<close> and \<open>Reload\<close> step by step under
    the read-write mutex, with any number of goroutines.
  \<^item> \<open>Peer\<close>: \<open>peer_linux.go\<close>, \<open>peer_darwin.go\<close> and the listener of \<open>main.go\<close>.
  \<^item> \<open>Startup\<close>, \<open>TlsInit\<close>: \<open>main.go\<close> and \<open>tls_init.go\<close> as stages of events and as steps over a map of
    files.
  \<^item> \<open>Lifecycle\<close>: the running process of \<open>main.go\<close> as a transition system: \<open>main\<close> works off the events
    of \<open>Startup.main\<close>, while the goroutines of the signals, the TCP listener and the reload run
    beside it and the once-only cleanup is raced for.
  \<^item> \<open>System\<close>: the requests of one connection; this theory puts the components together.

  \<^bold>\<open>State.\<close>  The proxy keeps little: the handler is its user and socket, the host allowlist is a set
  and a list of suffixes behind a mutex, the process has its listeners, signals and \<open>sync.Once\<close>
  (\<open>proc\<close>), and everything else is per request or per connection.  What lies
  outside is a parameter, never a definition: the daemon (\<open>answers\<close>, \<open>w_round_trip\<close>), the file tree,
  the success of socket operations (\<open>world\<close>, \<open>connect_world\<close>), the operating system (\<open>os\<close>), the
  cryptography (\<open>crypto\<close>), the lower case of non-ASCII code points.  The daemon may answer
  differently from one subrequest to the next.

  \<^bold>\<open>What is shown.\<close>  The allowlist is exactly the tables of the specification but for the paths that an
  earlier route takes for itself and the methods that the code denies on container and exec actions;
  accepted bodies are exactly the acceptable ones, and what leaves the proxy satisfies the policy, passes
  again unchanged, and keeps, as decoded, the fields that are not rewritten; resolved paths are
  canonical and no path is allowed to two users; whatever reaches the daemon was allowed, carries a
  checked body, and acts on a container only after its owner was verified, with two exemptions that the
  code makes; the client sees only its own containers, and one response; the relay delivers
  prefixes, refines a channel and comes to its end under every schedule; the CONNECT proxy dials only
  listed hosts, and a lookup during a reload answers as on one complete allowlist; the sockets are served
  only when they are bound and restricted, and only to the uid of the user where the peer is known; the
  cleanup runs once, no socket is left behind by a program that ends by itself, and a termination
  signal ends it in a bounded number of steps; the certificate tree is complete.  The same models
  prove the gaps that are listed as findings, among them that bytes behind a streaming request are not
  checked, that containers named \<open>json\<close> or \<open>create\<close> escape the ownership check, that a colon in a
  resolved path splits a bind, and that an interrupted generation is never completed.

  \<^bold>\<open>Bounds.\<close>  Symbolic links: at most 255 are followed, the bound of \<open>EvalSymlinks\<close> itself; beyond it
  the model returns the error the code returns.  JSON: nesting up to 10000, the decoder's limit;
  bodies up to 16 MiB; number formatting tries up to 17 digits, which identify every float64.
  Every other recursion is structural or has a measure; the relay's run is bounded by its
  unread bytes (\<open>relay_work\<close>), the shutdown by the 76 steps that \<open>work\<close> can be at most.  Concrete
  runs of the process are computed by \<open>run_for\<close> with 20 steps of fuel, which is more than they take.

  \<^bold>\<open>Assumptions in statements.\<close>  \<open>server_url\<close>: a parsed URL has no opaque part that begins with a slash
  (as \<open>url.Parse\<close> guarantees); user names are valid UTF-8; \<open>links_valid\<close>: symbolic links
  lead to valid UTF-8.  Without colons in link targets (\<open>links_free\<close>) every source in a rewritten body
  is a validated path as a whole; in general it may be what stands before a colon in one
  (\<open>cut_source\<close>).  No path is shared by two users when neither is named \<open>Workspaces\<close> and their sockets
  resolve outside \<open>/Users\<close> (\<open>socket_placed\<close>).

  \<^bold>\<open>Not modelled.\<close>  Logging destinations, the prefix of the log lines and the exact text of errors of
  the libraries; timeouts (the read deadline of the CONNECT proxy is an event, its expiry a failed
  read); HTTP parsing and framing inside \<open>net/http\<close> (requests arrive as parsed, bodies as byte
  streams); what happens behind a switch of protocols and a daemon
  that fails in the middle of a response body; the parsing of the command line; the
  goroutines of single connections during the shutdown; certificate contents beyond their
  templates; the scripts under \<open>bin\<close>, the Python prototype and the tests.
\<close>

section \<open>From the accepted connection to the daemon\<close>

text \<open>The requests of a connection are handled strictly one after the other, each by \<open>ServeHTTP\<close>, and
  relay mode is the end of it: when a request enters relay mode, no later request of the
  connection is handled, so none of them is checked and none is mistaken for a request of its own.\<close>

theorem relay_ends_connection:
  assumes "i < length (serve_connection h reqs)" "ERelay \<in> set (serve_connection h reqs ! i)"
  shows "Suc i = length (serve_connection h reqs)
    \<and> (\<exists>w r. reqs ! i = (w, r) \<and> serve_connection h reqs ! i = ServeHTTP h w r)"
proof -
  from serve_connection_nth [OF assms(1)] obtain w r where wr: "reqs ! i = (w, r)" "serve_connection h reqs ! i = ServeHTTP h w r"
    by blast
  then have "EHijack \<in> set (serve_connection h reqs ! i)" using relay_hijacks assms(2) by simp
  then have "list_ex takes_over (serve_connection h reqs ! i)" by (force simp: list_ex_iff)
  from takes_over_last [OF assms(1) this] show ?thesis using wr by blast
qed

theorem relay_ends_connection_witness:
  "length (serve_connection alice [(sample_world alices, attach_request), (sample_world alices, create_request)]) = 1"
proof -
  let ?reqs = "[(sample_world alices, attach_request), (sample_world alices, create_request)]"
  have "serve_connection alice ?reqs ! 0 = ServeHTTP alice (sample_world alices) attach_request"
    "0 < length (serve_connection alice ?reqs)"
    by (simp_all add: Let_def)
  then show ?thesis using relay_ends_connection [of 0 alice ?reqs] attach_relayed by simp
qed

text \<open>C6. The whole way to the daemon.  Let the program run for a user with a uid of 32 bits, let a
  connection be handed out on its Unix socket, and let a request on it make the proxy send anything to
  the daemon.  Then: the peer has the user's uid, if the lookup of the peer succeeded (the listener lets
  a connection through when the lookup fails); the directory of the socket is owned by root, unless
  the checks are skipped; the request is one that the allowlist accepts for the user; if the path that
  the daemon will read acts on a container, the daemon named the user as its owner before, with
  the two exemptions of the ownership check (containers named \<open>json\<close> or \<open>create\<close>, decoded paths
  with a line feed); and if it acts on an exec instance, the same of the container of that
  instance, without exemption.\<close>

theorem daemon_guarded:
  assumes "ServeUnix l \<in> set (main f sys uni)"
    and "os_lookup sys (f_user f) = Some (itoa u)" "0 \<le> u" "u < 2 ^ 32"
    and "Accept lookup l xs = (ls, Some (Inr (UnixConn uc), rest))"
    and "es \<in> set (serve_connection (NewHandler (f_user f) (f_upstream f)) reqs)" "e \<in> set es" "sends e"
  shows "(if snd (lookup uc) then uint (fst (lookup uc)) = u else True)
    \<and> (if f_insecure f then True else verifyParentRootOwned sys (f_socket f) = None)
    \<and> (\<exists>(w, r) \<in> set reqs. es = ServeHTTP (NewHandler (f_user f) (f_upstream f)) w r
         \<and> is_endpoint_allowed (req_method r) (request_uri (req_url r)) (f_user f)
         \<and> (\<forall>ver n. server_url (req_url r) \<and> acts_on_container (wire_path (req_url r))
              \<and> names_container (wire_path (req_url r)) ver n \<and> n \<noteq> ''json'' \<and> n \<noteq> ''create''
              \<and> newline \<notin> set (url_path (req_url r))
            \<longrightarrow> owned_by (w_answers w) 0 ver n (f_user f))
         \<and> (\<forall>ver n. server_url (req_url r) \<and> re_match reExecAction (wire_path (req_url r))
              \<and> names_exec (wire_path (req_url r)) ver n
            \<longrightarrow> (\<exists>cid. says_container (w_answers w) ver n cid \<and> owned_by (w_answers w) 1 ver cid (f_user f))))"
proof -
  let ?h = "NewHandler (f_user f) (f_upstream f)"
  from assms(1) obtain uid where uid: "f_user f \<noteq> []" "resolveUID sys (f_user f) (f_insecure f) = Inr uid"
    "if f_insecure f then True else verifyParentRootOwned sys (f_socket f) = None"
    "l = \<lparr>expectedUID = word_of_int uid, listener_user = f_user f\<rparr>"
    by (rule main_unix_listener)
  have "uid = u" using uid(2) assms(2-4) atoi_itoa [of u] by (simp add: resolveUID_def)
  moreover have "snd (lookup uc) \<Longrightarrow> fst (lookup uc) = expectedUID l"
    using admitted_peer [OF assms(5)] by (auto split: prod.splits)
  ultimately have peer: "snd (lookup uc) \<Longrightarrow> uint (fst (lookup uc)) = u"
    using uid(4) assms(3,4) by (simp add: uint_word_of_int)
  from serve_connection_served [OF assms(6)] obtain w r where wr: "(w, r) \<in> set reqs" "es = ServeHTTP ?h w r"
    by blast
  have e: "e \<in> set (ServeHTTP ?h w r)" using wr(2) assms(7) by simp
  have user: "User ?h = f_user f" by (simp add: NewHandler_def)
  have "is_endpoint_allowed (req_method r) (request_uri (req_url r)) (f_user f)"
    using sent_allowed(2) [OF e sends_reaches [OF assms(8)]] user by simp
  note sent = this sends_owned_container [OF e assms(8), unfolded user, OF _ uid(1)]
    sends_owned_exec [OF e assms(8), unfolded user, OF _ uid(1)]
  show ?thesis
    by (intro conjI bexI [OF _ wr(1)] uid(3), use peer in simp, unfold prod.case, use wr(2) sent in blast)
qed

theorem daemon_guarded_witness:
  "\<exists>l uc peer. ServeUnix l \<in> set (main alice_flags plain_os (\<lambda>r. r)) \<and> GetPeerUID uc = (peer, True)
     \<and> uint peer = 501 \<and> owned_by (w_answers (sample_world alices)) 0 ''v1.41'' ''web'' ''alice''"
proof -
  let ?l = "\<lparr>expectedUID = 501, listener_user = ''alice''\<rparr>"
  let ?uc = "\<lparr>conn_name = ''b'', raw_ok = True, control_ok = True, ucred = Some 501, xucred = None\<rparr>"
  have l: "ServeUnix ?l \<in> set (main alice_flags plain_os (\<lambda>r. r))" by code_simp
  have f: "f_user alice_flags = ''alice''" "f_upstream alice_flags = ''/var/run/docker.sock''"
    "\<not> f_insecure alice_flags"
    by (simp_all add: alice_flags_def plain_flags_def)
  have "itoa 501 = ''501''" by code_simp
  then have u: "os_lookup plain_os (f_user alice_flags) = Some (itoa 501)" by (simp add: plain_os_def)
  have a: "Accept GetPeerUID ?l [UnixConn ?uc] = ([], Some (Inr (UnixConn ?uc), []))" and p: "GetPeerUID ?uc = (501, True)"
    by (simp_all add: GetPeerUID_def)
  have es: "ServeHTTP alice (sample_world alices) attach_request
      \<in> set (serve_connection (NewHandler (f_user alice_flags) (f_upstream alice_flags)) [(sample_world alices, attach_request)])"
    unfolding f by (simp add: Let_def)
  have sends: "sends ERelay" by simp
  from daemon_guarded [OF l u _ _ a es attach_relayed sends] attach_names attach_acts p
  have "uint (501 :: uid) = 501 \<and> owned_by (w_answers (sample_world alices)) 0 ''v1.41'' ''web'' ''alice''"
    unfolding f by auto
  then show ?thesis using l p by blast
qed

section \<open>The handler and the relay together\<close>

text \<open>What follows a streaming request on its connection is not checked: the user's own log request
  enters relay mode, and then any further request that the client writes, here one to an endpoint
  that the allowlist denies, reaches the daemon unread.\<close>

theorem relayed_connection_unchecked:
  "ERelay \<in> set (ServeHTTP alice (sample_world alices)
       (sample_request ''GET'' ''/v1.41/containers/web/logs'' []))
   \<and> \<not> is_endpoint_allowed ''POST'' ''/v1.41/plugins/x/enable'' ''alice''
   \<and> (\<exists>s. reachable (Relay True True) s \<and> delivered (to_upstream s)
        = ''POST /v1.41/plugins/x/enable HTTP/1.1'' @ crlf @ ''Host: docker'' @ crlf @ crlf)"
proof (intro conjI)
  have t: "plain_target ''/v1.41/containers/web/logs''" by code_simp
  show "ERelay \<in> set (ServeHTTP alice (sample_world alices)
       (sample_request ''GET'' ''/v1.41/containers/web/logs'' []))"
    by (rule sample_relay) (unfold sample_plain [OF t] sample_fields, code_simp+)
  show "\<not> is_endpoint_allowed ''POST'' ''/v1.41/plugins/x/enable'' ''alice''"
    by code_simp
qed (rule relay_carries)

end
